theory Spec2Isabelle
  imports Main
begin

section \<open>Data model (app.ts, lines 8-37)\<close>

text \<open>
  The program is a TypeScript console game (tic-tac-toe on a 3 x 3 board, gomoku on a
  10 x 10 board).  Its interfaces become records.  A cell is declared as a string
  (\<^verbatim>\<open>type Cell = string\<close>), but reading an array beyond its length yields the JavaScript
  value \<^verbatim>\<open>undefined\<close>, and writing beyond its length leaves holes that read as
  \<^verbatim>\<open>undefined\<close>; the cell type therefore has both values.  Where the source would
  throw (a property read on \<^verbatim>\<open>undefined\<close>, a pattern the RegExp constructor rejects)
  the model returns \<open>Inl\<close> of the exception.  The field \<^verbatim>\<open>type\<close> of a game is
  \<open>gtype\<close> here.  The turn index and the win length, which the program only sets to
  0 or 1 and to 3 or 5, are natural numbers; the two counters are integers.
\<close>

datatype JsException = TypeError | SyntaxError

datatype Cell = Undefined | Str string

type_synonym Row = "Cell list"

type_synonym Gameboard = "Row list"

type_synonym Error = string

record Player =
  name :: string
  totalWins :: int

record Game =
  gtype :: string
  players :: "Player list"
  gameboard :: Gameboard
  turn :: nat
  winCase :: nat
  remainingEmptyCells :: int

text \<open>
  The text the player types is any JavaScript string, a sequence of UTF-16 code units
  (integers here); the texts of the program itself (marks, messages) are ASCII and
  stay strings of characters.  \<open>codeUnits\<close> gives the code units of an ASCII text.
\<close>

type_synonym JsString = "int list"

definition codeUnits :: "string \<Rightarrow> JsString" where
  "codeUnits s = map of_char s"

text \<open>
  The numbers that occur as coordinates: the integers and \<^verbatim>\<open>Infinity\<close>, which
  \<^verbatim>\<open>parseInt\<close> returns for a text of several hundred digits.
\<close>

datatype Number = Finite int | Infinity

record Input =
  row :: Number
  col :: Number

text \<open>\<^verbatim>\<open>n > k\<close> and \<^verbatim>\<open>n < k\<close> for a number \<open>n\<close> and an integer \<open>k\<close>.\<close>

definition numberGreater :: "Number \<Rightarrow> int \<Rightarrow> bool" where
  "numberGreater n k = (case n of Finite i \<Rightarrow> i > k | Infinity \<Rightarrow> True)"

definition numberLess :: "Number \<Rightarrow> int \<Rightarrow> bool" where
  "numberLess n k = (case n of Finite i \<Rightarrow> i < k | Infinity \<Rightarrow> False)"

definition TIC_TAC_TOE :: string where
  "TIC_TAC_TOE = ''tic-tac-toe''"

definition GOMOKU :: string where
  "GOMOKU = ''gomoku''"

text \<open>JavaScript truthiness of a cell: \<^verbatim>\<open>undefined\<close> and the empty string are falsy.\<close>

definition truthy :: "Cell \<Rightarrow> bool" where
  "truthy cell = (case cell of Undefined \<Rightarrow> False | Str s \<Rightarrow> s \<noteq> [])"

text \<open>
  \<^verbatim>\<open>xs[i]\<close> for a number \<open>i\<close>: the element when \<open>i\<close> is an index of the array,
  \<^verbatim>\<open>undefined\<close> (here \<open>None\<close>) otherwise.
\<close>

definition arrayGet :: "'a list \<Rightarrow> int \<Rightarrow> 'a option" where
  "arrayGet xs i = (if 0 \<le> i \<and> i < int (length xs) then Some (xs ! nat i) else None)"

text \<open>\<^verbatim>\<open>row[k]\<close> on a row of cells: a missing element reads as \<^verbatim>\<open>undefined\<close>.\<close>

definition cellAt :: "Row \<Rightarrow> int \<Rightarrow> Cell" where
  "cellAt r k = (case arrayGet r k of None \<Rightarrow> Undefined | Some c \<Rightarrow> c)"

text \<open>
  \<^verbatim>\<open>row[k] = v\<close>: an index inside the array replaces the element, an index at or beyond
  the length extends the array, and a negative number only adds a property and leaves
  the elements alone.  The positions skipped by an extension are holes; they read as
  \<^verbatim>\<open>undefined\<close> and are written so here (that \<^verbatim>\<open>forEach\<close> and \<^verbatim>\<open>map\<close> skip holes
  is not represented).  A move that passed validation always writes inside the row.
\<close>

definition arraySet :: "Row \<Rightarrow> int \<Rightarrow> Cell \<Rightarrow> Row" where
  "arraySet r k v =
     (if k < 0 then r
      else if nat k < length r then r[nat k := v]
      else r @ replicate (nat k - length r) Undefined @ [v])"

text \<open>
  The same accesses with a number as the index: \<^verbatim>\<open>Infinity\<close> is no index of an array, so
  reading there gives \<^verbatim>\<open>undefined\<close> and writing there only adds a property.
\<close>

definition arrayGetNumber :: "'a list \<Rightarrow> Number \<Rightarrow> 'a option" where
  "arrayGetNumber xs n = (case n of Finite i \<Rightarrow> arrayGet xs i | Infinity \<Rightarrow> None)"

definition cellAtNumber :: "Row \<Rightarrow> Number \<Rightarrow> Cell" where
  "cellAtNumber r n = (case n of Finite k \<Rightarrow> cellAt r k | Infinity \<Rightarrow> Undefined)"

definition arraySetNumber :: "Row \<Rightarrow> Number \<Rightarrow> Cell \<Rightarrow> Row" where
  "arraySetNumber r n v = (case n of Finite k \<Rightarrow> arraySet r k v | Infinity \<Rightarrow> r)"

section \<open>Session creation (app.ts, lines 103-160)\<close>

text \<open>
  \<^verbatim>\<open>for (let j = 0; j < size; j++) row.push('')\<close> and the enclosing loop over \<open>i\<close>,
  each as a recursive function over the loop counter.
\<close>

function initRow :: "int \<Rightarrow> int \<Rightarrow> Row \<Rightarrow> Row" where
  "initRow sz j r = (if j < sz then initRow sz (j + 1) (r @ [Str '''']) else r)"
  by pat_completeness auto
termination
  by (relation "measure (\<lambda>(sz, j, r). nat (sz - j))") auto

function initRows :: "int \<Rightarrow> int \<Rightarrow> Gameboard \<Rightarrow> Gameboard" where
  "initRows sz i gb =
     (if i < sz then initRows sz (i + 1) (gb @ [initRow sz 0 []]) else gb)"
  by pat_completeness auto
termination
  by (relation "measure (\<lambda>(sz, i, gb). nat (sz - i))") auto

declare initRow.simps [simp del] initRows.simps [simp del]

definition initGameboard :: "int \<Rightarrow> Gameboard" where
  "initGameboard sz = initRows sz 0 []"

definition initPlayers :: "Player list" where
  "initPlayers = [\<lparr>name = ''X'', totalWins = 0\<rparr>, \<lparr>name = ''O'', totalWins = 0\<rparr>]"

text \<open>
  \<^verbatim>\<open>initGame\<close> chooses the board size and the win length from the game type; the title
  it prints is not part of the state.  It has no failing path.
\<close>

definition initGame :: "string \<Rightarrow> Game" where
  "initGame gameType =
     (let (gameboardSize, wc) = (if gameType = TIC_TAC_TOE then (3, 3) else (10, 5))
      in \<lparr>gtype = gameType,
          players = initPlayers,
          gameboard = initGameboard gameboardSize,
          turn = 0,
          winCase = wc,
          remainingEmptyCells = gameboardSize * gameboardSize\<rparr>)"

section \<open>Applying a move (app.ts, lines 224-231)\<close>

text \<open>
  \<^verbatim>\<open>game.gameboard[input.row][input.col] = game.players[game.turn].name\<close> throws a
  TypeError when \<^verbatim>\<open>gameboard[input.row]\<close> or \<^verbatim>\<open>players[game.turn]\<close> is
  \<^verbatim>\<open>undefined\<close>.  Then the counter is decremented and the turn flipped.
\<close>

definition updateGame :: "Input \<Rightarrow> Game \<Rightarrow> JsException + Game" where
  "updateGame input game =
     (case row input of
        Infinity \<Rightarrow> Inl TypeError
      | Finite i \<Rightarrow>
          (case arrayGet (gameboard game) i of
             None \<Rightarrow> Inl TypeError
           | Some r \<Rightarrow>
               (case arrayGet (players game) (int (turn game)) of
                  None \<Rightarrow> Inl TypeError
                | Some p \<Rightarrow>
                    Inr (game\<lparr>gameboard :=
                                 (gameboard game)[nat i :=
                                    arraySetNumber r (col input) (Str (name p))],
                               remainingEmptyCells := remainingEmptyCells game - 1,
                               turn := (if turn game = 0 then 1 else 0)\<rparr>))))"

section \<open>Move validation (app.ts, lines 256-314)\<close>

text \<open>
  The pattern \<^verbatim>\<open>/^\s*\d+,\s*\d+\s*$/\<close>.  Its three character classes (white space,
  digits, the comma) are disjoint, so the greedy left-to-right reading below decides the
  match.  \<^verbatim>\<open>\s\<close> is the white space and the line terminators of JavaScript: tab, line
  feed, vertical tab, form feed, carriage return, space, no-break space (U+00A0), U+1680,
  U+2000 to U+200A, the line and paragraph separators U+2028 and U+2029, U+202F, U+205F,
  U+3000 and the byte order mark U+FEFF.  \<^verbatim>\<open>\d\<close> is the ten ASCII digits, and the comma
  is the code unit 44.
\<close>

definition isSpace :: "int \<Rightarrow> bool" where
  "isSpace c =
     (c \<in> set [0x09, 0x0A, 0x0B, 0x0C, 0x0D, 0x20, 0xA0, 0x1680, 0x2028, 0x2029, 0x202F,
                0x205F, 0x3000, 0xFEFF] \<or>
      (0x2000 \<le> c \<and> c \<le> 0x200A))"

definition isDigit :: "int \<Rightarrow> bool" where
  "isDigit c = (48 \<le> c \<and> c \<le> 57)"

definition inputRegexpTest :: "JsString \<Rightarrow> bool" where
  "inputRegexpTest rawInput =
     (let s1 = dropWhile isSpace rawInput;
          s2 = dropWhile isDigit s1
      in takeWhile isDigit s1 \<noteq> [] \<and>
         (case s2 of
            [] \<Rightarrow> False
          | c # s3 \<Rightarrow>
              c = 44 \<and>
              (let s4 = dropWhile isSpace s3;
                   s5 = dropWhile isDigit s4
               in takeWhile isDigit s4 \<noteq> [] \<and> dropWhile isSpace s5 = [])))"

text \<open>\<^verbatim>\<open>trim\<close> removes the same characters from both ends.\<close>

definition trim :: "JsString \<Rightarrow> JsString" where
  "trim s = rev (dropWhile isSpace (rev (dropWhile isSpace s)))"

text \<open>
  A number is a double.  The number of a non-negative integer: the integer itself below
  \<open>2\<^sup>5\<^sup>3\<close>, and beyond that the nearest double, which keeps the 53 leading bits, rounds
  to the even neighbour on a tie, and is \<^verbatim>\<open>Infinity\<close> from \<open>2\<^sup>1\<^sup>0\<^sup>2\<^sup>4\<close> on.
\<close>

function bitLength :: "int \<Rightarrow> nat" where
  "bitLength n = (if n \<le> 0 then 0 else Suc (bitLength (n div 2)))"
  by pat_completeness auto
termination
  by (relation "measure nat") auto

declare bitLength.simps [simp del]

definition toNumber :: "int \<Rightarrow> Number" where
  "toNumber n =
     (if n < 2 ^ 53 then Finite n
      else
        (let e = bitLength n - 53;
             q = n div 2 ^ e;
             r = n mod 2 ^ e;
             q' = (if 2 * r > 2 ^ e \<or> (2 * r = 2 ^ e \<and> odd q) then q + 1 else q);
             v = q' * 2 ^ e
         in if v \<ge> 2 ^ 1024 then Infinity else Finite v))"

text \<open>
  \<^verbatim>\<open>parseInt\<close> on the strings it receives here: after the pattern test and the trimming
  they are non-empty strings of digits, and the result is the number of their decimal
  value (for more than 20 digits the language lets an engine approximate the value
  first; the engines in use round the exact value, as is done here).
\<close>

definition digitValue :: "int \<Rightarrow> int" where
  "digitValue c = c - 48"

definition parseInt :: "JsString \<Rightarrow> Number" where
  "parseInt s = toNumber (foldl (\<lambda>acc c. 10 * acc + digitValue c) 0 (takeWhile isDigit s))"

definition malformedMessage :: Error where
  "malformedMessage = ''Invalid input. A valid input should look like this x,y.''"

definition outOfBoundMessage :: Error where
  "outOfBoundMessage = ''Input out of bound''"

definition cellTakenMessage :: Error where
  "cellTakenMessage = ''This cell has already been placed''"

text \<open>
  The pattern admits exactly one comma, so \<^verbatim>\<open>rawInput.trim().split(',')\<close> has two parts:
  the text before the comma and the text after it.
\<close>

definition convertRawInputToInput :: "JsString \<Rightarrow> Input option \<times> Error" where
  "convertRawInputToInput rawInput =
     (if \<not> inputRegexpTest rawInput then (None, malformedMessage)
      else
        (let parts = trim rawInput;
             rowStr = takeWhile (\<lambda>c. c \<noteq> 44) parts;
             colStr = drop 1 (dropWhile (\<lambda>c. c \<noteq> 44) parts);
             rowIndex = parseInt (trim rowStr);
             colIndex = parseInt (trim colStr)
         in (Some \<lparr>row = rowIndex, col = colIndex\<rparr>, '''')))"

definition validateInputOutOfBound :: "Input \<Rightarrow> Gameboard \<Rightarrow> Error" where
  "validateInputOutOfBound input gb =
     (let bound = int (length gb) - 1
      in if numberGreater (row input) bound \<or> numberGreater (col input) bound \<or>
            numberLess (row input) 0 \<or> numberLess (col input) 0
         then outOfBoundMessage else '''')"

definition validateEmptyCell :: "Input \<Rightarrow> Gameboard \<Rightarrow> JsException + Error" where
  "validateEmptyCell input gb =
     (case arrayGetNumber gb (row input) of
        None \<Rightarrow> Inl TypeError
      | Some r \<Rightarrow>
          (let cell = cellAtNumber r (col input)
           in Inr (if \<not> truthy cell then '''' else cellTakenMessage)))"

definition validateInput :: "JsString \<Rightarrow> Gameboard \<Rightarrow> JsException + (Input option \<times> Error)" where
  "validateInput rawInput gb =
     (case convertRawInputToInput rawInput of
        (None, convertingError) \<Rightarrow> Inr (None, convertingError)
      | (Some input, convertingError) \<Rightarrow>
          if convertingError \<noteq> [] then Inr (None, convertingError)
          else
            (let inputOutOfBounderror = validateInputOutOfBound input gb
             in if length inputOutOfBounderror \<noteq> 0 then Inr (Some input, inputOutOfBounderror)
                else
                  (case validateEmptyCell input gb of
                     Inl e \<Rightarrow> Inl e
                   | Inr err \<Rightarrow> Inr (Some input, err))))"

section \<open>Linearizations of the board (app.ts, lines 361-376 and 391-440)\<close>

text \<open>
  \<^verbatim>\<open>concatGameboard\<close>: every cell contributes its own text, or \<open>E\<close> when it is falsy, and
  every row is closed by \<open>B\<close>.  Both \<^verbatim>\<open>forEach\<close> loops append to an accumulator.
\<close>

definition ROW_BREAK :: string where
  "ROW_BREAK = ''B''"

definition EMPTY_CELL_MARK :: string where
  "EMPTY_CELL_MARK = ''E''"

definition cellMark :: "Cell \<Rightarrow> string" where
  "cellMark cell = (case cell of Undefined \<Rightarrow> EMPTY_CELL_MARK
                    | Str s \<Rightarrow> if s \<noteq> [] then s else EMPTY_CELL_MARK)"

definition rowToStr :: "Row \<Rightarrow> string" where
  "rowToStr r = foldl (\<lambda>rowStr cell. rowStr @ cellMark cell) [] r"

definition concatGameboard :: "Gameboard \<Rightarrow> string" where
  "concatGameboard gb =
     foldl (\<lambda>concatenatedGameboard r. concatenatedGameboard @ (rowToStr r @ ROW_BREAK)) [] gb"

text \<open>
  \<^verbatim>\<open>transposeGameboard\<close> maps over the first row for the column indices; on a board
  without rows \<^verbatim>\<open>gameboard[0]\<close> is \<^verbatim>\<open>undefined\<close> and the call throws.
\<close>

definition transposeGameboard :: "Gameboard \<Rightarrow> JsException + Gameboard" where
  "transposeGameboard gb =
     (case gb of
        [] \<Rightarrow> Inl TypeError
      | r0 # _ \<Rightarrow> Inr (map (\<lambda>i. map (\<lambda>r. cellAt r (int i)) gb) [0..<length r0]))"

text \<open>
  \<^verbatim>\<open>diagonalizeGameboard\<close>: the loop over \<open>j\<close> (inner) and the loop over \<open>i\<close> (outer).
  The outer bound \<^verbatim>\<open>2 * (size - 1)\<close> is negative for the empty board, hence the integers.
  The guard \<^verbatim>\<open>j < size\<close> makes \<^verbatim>\<open>gameboard[j]\<close> a row of the board.
\<close>

function diagonalRowLoop :: "Gameboard \<Rightarrow> nat \<Rightarrow> nat \<Rightarrow> Row \<Rightarrow> Row" where
  "diagonalRowLoop gb i j diagonalRow =
     (if j \<le> i then
        (let k = i - j
         in diagonalRowLoop gb i (j + 1)
              (if j < length gb \<and> k < length gb
               then diagonalRow @ [cellAt (gb ! j) (int k)]
               else diagonalRow))
      else diagonalRow)"
  by pat_completeness auto
termination
  by (relation "measure (\<lambda>(gb, i, j, diagonalRow). Suc i - j)") auto

function diagonalLoop :: "Gameboard \<Rightarrow> nat \<Rightarrow> Gameboard \<Rightarrow> Gameboard" where
  "diagonalLoop gb i diagonalizedGameboard =
     (if int i \<le> 2 * (int (length gb) - 1)
      then diagonalLoop gb (i + 1) (diagonalizedGameboard @ [diagonalRowLoop gb i 0 []])
      else diagonalizedGameboard)"
  by pat_completeness auto
termination
  by (relation "measure (\<lambda>(gb, i, acc). nat (2 * (int (length gb) - 1) + 1 - int i))") auto

definition diagonalizeGameboard :: "Gameboard \<Rightarrow> Gameboard" where
  "diagonalizeGameboard gb = diagonalLoop gb 0 []"

text \<open>\<^verbatim>\<open>antiDiagonalizeGameboard\<close>: the same loops with \<^verbatim>\<open>k = size - 1 - i + j\<close>.\<close>

function antiDiagonalRowLoop :: "Gameboard \<Rightarrow> nat \<Rightarrow> nat \<Rightarrow> Row \<Rightarrow> Row" where
  "antiDiagonalRowLoop gb i j antiDiagonalRow =
     (if j \<le> i then
        (let k = int (length gb) - 1 - int i + int j
         in antiDiagonalRowLoop gb i (j + 1)
              (if j < length gb \<and> k \<ge> 0
               then antiDiagonalRow @ [cellAt (gb ! j) k]
               else antiDiagonalRow))
      else antiDiagonalRow)"
  by pat_completeness auto
termination
  by (relation "measure (\<lambda>(gb, i, j, antiDiagonalRow). Suc i - j)") auto

function antiDiagonalLoop :: "Gameboard \<Rightarrow> nat \<Rightarrow> Gameboard \<Rightarrow> Gameboard" where
  "antiDiagonalLoop gb i antiDiagonalizedGameboard =
     (if int i \<le> 2 * (int (length gb) - 1)
      then antiDiagonalLoop gb (i + 1)
             (antiDiagonalizedGameboard @ [antiDiagonalRowLoop gb i 0 []])
      else antiDiagonalizedGameboard)"
  by pat_completeness auto
termination
  by (relation "measure (\<lambda>(gb, i, acc). nat (2 * (int (length gb) - 1) + 1 - int i))") auto

definition antiDiagonalizeGameboard :: "Gameboard \<Rightarrow> Gameboard" where
  "antiDiagonalizeGameboard gb = antiDiagonalLoop gb 0 []"

declare diagonalRowLoop.simps [simp del] diagonalLoop.simps [simp del]
declare antiDiagonalRowLoop.simps [simp del] antiDiagonalLoop.simps [simp del]

section \<open>Win detection (app.ts, lines 316-389)\<close>

text \<open>
  \<^verbatim>\<open>new RegExp(`${name}{${winCase}}`)\<close>.  For a name of ordinary characters (letters,
  digits) the quantifier binds to the last character of the name, so the pattern matches
  the text of the name with its last character written \<open>winCase\<close> times; the compiled
  pattern is represented by that text.  The empty name gives the pattern \<^verbatim>\<open>{k}\<close>, which
  the constructor rejects.  Names with characters of the pattern syntax are outside this
  model; the program only creates the names \<open>X\<close> and \<open>O\<close>.
\<close>

definition newRegExp :: "string \<Rightarrow> nat \<Rightarrow> JsException + string" where
  "newRegExp nm k =
     (if nm = [] then Inl SyntaxError else Inr (butlast nm @ replicate k (last nm)))"

text \<open>\<^verbatim>\<open>regexp.test(s)\<close> for such a pattern: the text occurs somewhere in \<open>s\<close>.\<close>

fun regexpTest :: "string \<Rightarrow> string \<Rightarrow> bool" where
  "regexpTest pat [] = (pat = [])"
| "regexpTest pat (c # cs) = (take (length pat) (c # cs) = pat \<or> regexpTest pat cs)"

definition hasWinner :: "string \<Rightarrow> Game \<Rightarrow> JsException + bool" where
  "hasWinner concatenatedGameboard game =
     (case arrayGet (players game) 0 of
        None \<Rightarrow> Inl TypeError
      | Some p0 \<Rightarrow>
          (case newRegExp (name p0) (winCase game) of
             Inl e \<Rightarrow> Inl e
           | Inr playerOneRegexp \<Rightarrow>
               (case arrayGet (players game) 1 of
                  None \<Rightarrow> Inl TypeError
                | Some p1 \<Rightarrow>
                    (case newRegExp (name p1) (winCase game) of
                       Inl e \<Rightarrow> Inl e
                     | Inr playerTwoRegexp \<Rightarrow>
                         Inr (regexpTest playerOneRegexp concatenatedGameboard \<or>
                              regexpTest playerTwoRegexp concatenatedGameboard)))))"

text \<open>
  The body of each of the four \<^verbatim>\<open>if\<close> statements of \<^verbatim>\<open>checkForWin\<close>:
  \<^verbatim>\<open>game.players[lastMove].totalWins++\<close> and the message that is returned.
\<close>

definition tieMessage :: string where
  "tieMessage = ''The game is tied!''"

definition winMessage :: "Player \<Rightarrow> string" where
  "winMessage p = ''Player '' @ name p @ '' wins!''"

definition recordWin :: "nat \<Rightarrow> Game \<Rightarrow> JsException + (string \<times> Game)" where
  "recordWin lastMove game =
     (case arrayGet (players game) (int lastMove) of
        None \<Rightarrow> Inl TypeError
      | Some p \<Rightarrow>
          Inr (winMessage p,
               game\<lparr>players := (players game)[lastMove := p\<lparr>totalWins := totalWins p + 1\<rparr>]\<rparr>))"

text \<open>
  \<^verbatim>\<open>checkForWin\<close> returns the message and, the game being mutable in the source, the
  game after the call.  The four linearizations are built and tested in the order of
  the source, each only when the ones before it did not match.
\<close>

definition checkForWin :: "Game \<Rightarrow> JsException + (string \<times> Game)" where
  "checkForWin game =
     (let lastMove = (if turn game = 0 then 1 else 0)
      in case hasWinner (concatGameboard (gameboard game)) game of
           Inl e \<Rightarrow> Inl e
         | Inr True \<Rightarrow> recordWin lastMove game
         | Inr False \<Rightarrow>
             (case transposeGameboard (gameboard game) of
                Inl e \<Rightarrow> Inl e
              | Inr transposedGameboard \<Rightarrow>
                  (case hasWinner (concatGameboard transposedGameboard) game of
                     Inl e \<Rightarrow> Inl e
                   | Inr True \<Rightarrow> recordWin lastMove game
                   | Inr False \<Rightarrow>
                       (case hasWinner
                               (concatGameboard (diagonalizeGameboard (gameboard game))) game of
                          Inl e \<Rightarrow> Inl e
                        | Inr True \<Rightarrow> recordWin lastMove game
                        | Inr False \<Rightarrow>
                            (case hasWinner
                                    (concatGameboard
                                       (antiDiagonalizeGameboard (gameboard game))) game of
                               Inl e \<Rightarrow> Inl e
                             | Inr True \<Rightarrow> recordWin lastMove game
                             | Inr False \<Rightarrow>
                                 if remainingEmptyCells game = 0 then Inr (tieMessage, game)
                                 else Inr ('''', game))))))"

text \<open>
  The same statements of \<^verbatim>\<open>checkForWin\<close> once more, now together with a record of its
  calls of \<^verbatim>\<open>hasWinner\<close>: the linearizations that have been tested when the function
  returns or throws, in the order of the calls.
\<close>

datatype Linearization = Rows | Columns | Diagonals | AntiDiagonals


section \<open>The prompt loop (app.ts, lines 73-101)\<close>

text \<open>
  \<^verbatim>\<open>promptForInput\<close> prints the board (which reads it and cannot fail) and the name of
  \<^verbatim>\<open>game.players[game.turn]\<close> (a TypeError when that player is \<^verbatim>\<open>undefined\<close>), asks
  for a line and validates it.  An accepted move is applied and checked for a win: a
  non-empty message ends the game (it is printed with the totals, and
  \<^verbatim>\<open>promptForReplay\<close> takes over), the empty message leads to the next prompt with the
  updated game.  After a rejected line the next prompt has the game unchanged.  The
  lines the player types are the list; when it is used up the function is waiting at
  the prompt, which is the result with the empty message.  The printed text is left out.
\<close>

fun promptForInput :: "Game \<Rightarrow> JsString list \<Rightarrow> JsException + (string \<times> Game)" where
  "promptForInput game [] =
     (case arrayGet (players game) (int (turn game)) of
        None \<Rightarrow> Inl TypeError
      | Some currentPlayer \<Rightarrow> Inr ('''', game))"
| "promptForInput game (rawInput # lines) =
     (case arrayGet (players game) (int (turn game)) of
        None \<Rightarrow> Inl TypeError
      | Some currentPlayer \<Rightarrow>
          (case validateInput rawInput (gameboard game) of
             Inl e \<Rightarrow> Inl e
           | Inr (None, inputError) \<Rightarrow> promptForInput game lines
           | Inr (Some input, inputError) \<Rightarrow>
               if inputError = [] then
                 (case updateGame input game of
                    Inl e \<Rightarrow> Inl e
                  | Inr updated \<Rightarrow>
                      (case checkForWin updated of
                         Inl e \<Rightarrow> Inl e
                       | Inr (message, checked) \<Rightarrow>
                           if message \<noteq> [] then Inr (message, checked)
                           else promptForInput checked lines))
               else promptForInput game lines))"

section \<open>Notions used in the statements\<close>

text \<open>An \<open>N\<close> x \<open>N\<close> board: \<open>N\<close> rows of \<open>N\<close> cells.\<close>

definition square :: "nat \<Rightarrow> Gameboard \<Rightarrow> bool" where
  "square N gb = (length gb = N \<and> list_all (\<lambda>r. length r = N) gb)"

text \<open>
  The cells a game produces: empty (falsy), or the mark \<open>X\<close> or \<open>O\<close> of a player
  (\<^verbatim>\<open>initPlayers\<close> creates exactly these two names).
\<close>

definition marksXO :: "Cell \<Rightarrow> bool" where
  "marksXO cell = (\<not> truthy cell \<or> cell = Str ''X'' \<or> cell = Str ''O'')"

definition boardXO :: "Gameboard \<Rightarrow> bool" where
  "boardXO gb = list_all (list_all marksXO) gb"

definition playersXO :: "Game \<Rightarrow> bool" where
  "playersXO game = (map name (players game) = [''X'', ''O''])"

text \<open>The number of empty cells of a board.\<close>

definition emptyCells :: "Gameboard \<Rightarrow> nat" where
  "emptyCells gb = sum_list (map (\<lambda>r. length (filter (\<lambda>cell. \<not> truthy cell) r)) gb)"

text \<open>The player who placed the last mark: the one whose turn it is not.\<close>

definition mover :: "Game \<Rightarrow> nat" where
  "mover game = (if turn game = 0 then 1 else 0)"

text \<open>
  A sequence of cells has a run of \<open>K\<close> for the mark \<open>m\<close>: \<open>K\<close> consecutive cells, from
  some position \<open>i\<close> on, all hold \<open>m\<close>.
\<close>

definition hasRun :: "string \<Rightarrow> nat \<Rightarrow> Row \<Rightarrow> bool" where
  "hasRun m K s =
     list_ex (\<lambda>i. list_all (\<lambda>j. s ! (i + j) = Str m) [0..<K]) [0..<Suc (length s) - K]"

text \<open>
  Runs on the board itself, by the cells they occupy, on an \<open>N\<close> x \<open>N\<close> board:
  along a row from \<open>(r, c)\<close> to the right, along a column from \<open>(r, c)\<close> downwards,
  from \<open>(r, c)\<close> down and to the left (the cells \<open>(r + j, c - j)\<close>, which
  \<^verbatim>\<open>diagonalizeGameboard\<close> collects), and from \<open>(r, c)\<close> down and to the right (the cells
  \<open>(r + j, c + j)\<close>, which \<^verbatim>\<open>antiDiagonalizeGameboard\<close> collects).
\<close>

definition rowRun :: "Gameboard \<Rightarrow> nat \<Rightarrow> string \<Rightarrow> nat \<Rightarrow> bool" where
  "rowRun gb N m K =
     list_ex (\<lambda>r. list_ex (\<lambda>c. list_all (\<lambda>j. gb ! r ! (c + j) = Str m) [0..<K])
                     [0..<Suc N - K]) [0..<N]"

definition colRun :: "Gameboard \<Rightarrow> nat \<Rightarrow> string \<Rightarrow> nat \<Rightarrow> bool" where
  "colRun gb N m K =
     list_ex (\<lambda>c. list_ex (\<lambda>r. list_all (\<lambda>j. gb ! (r + j) ! c = Str m) [0..<K])
                     [0..<Suc N - K]) [0..<N]"

definition downLeftRun :: "Gameboard \<Rightarrow> nat \<Rightarrow> string \<Rightarrow> nat \<Rightarrow> bool" where
  "downLeftRun gb N m K =
     list_ex (\<lambda>r. list_ex (\<lambda>c. list_all (\<lambda>j. gb ! (r + j) ! (c - j) = Str m) [0..<K])
                     [K - 1..<N]) [0..<Suc N - K]"

definition downRightRun :: "Gameboard \<Rightarrow> nat \<Rightarrow> string \<Rightarrow> nat \<Rightarrow> bool" where
  "downRightRun gb N m K =
     list_ex (\<lambda>r. list_ex (\<lambda>c. list_all (\<lambda>j. gb ! (r + j) ! (c + j) = Str m) [0..<K])
                     [0..<Suc N - K]) [0..<Suc N - K]"

definition anyRun :: "Gameboard \<Rightarrow> nat \<Rightarrow> string \<Rightarrow> nat \<Rightarrow> bool" where
  "anyRun gb N m K =
     (rowRun gb N m K \<or> colRun gb N m K \<or> downLeftRun gb N m K \<or> downRightRun gb N m K)"

text \<open>
  The test that \<^verbatim>\<open>checkForWin\<close> makes on one linearization: the linearization is built,
  turned into text and searched.
\<close>

definition linearizationTest :: "Game \<Rightarrow> Linearization \<Rightarrow> JsException + bool" where
  "linearizationTest game l =
     (case l of
        Rows \<Rightarrow> hasWinner (concatGameboard (gameboard game)) game
      | Columns \<Rightarrow>
          (case transposeGameboard (gameboard game) of
             Inl e \<Rightarrow> Inl e
           | Inr t \<Rightarrow> hasWinner (concatGameboard t) game)
      | Diagonals \<Rightarrow> hasWinner (concatGameboard (diagonalizeGameboard (gameboard game))) game
      | AntiDiagonals \<Rightarrow>
          hasWinner (concatGameboard (antiDiagonalizeGameboard (gameboard game))) game)"

text \<open>
  The run of \<open>K\<close> cells of the mark \<open>m\<close> that the test on a linearization looks for:
  along a row, a column, down and to the left, down and to the right.
\<close>

definition linearizationRun :: "Linearization \<Rightarrow> Gameboard \<Rightarrow> nat \<Rightarrow> string \<Rightarrow> nat \<Rightarrow> bool" where
  "linearizationRun l gb N m K =
     (case l of
        Rows \<Rightarrow> rowRun gb N m K
      | Columns \<Rightarrow> colRun gb N m K
      | Diagonals \<Rightarrow> downLeftRun gb N m K
      | AntiDiagonals \<Rightarrow> downRightRun gb N m K)"

text \<open>
  The session \<^verbatim>\<open>initGame\<close> creates, with the board size and the win length as
  parameters; the program has the sizes 3 and 10 with the win lengths 3 and 5.
\<close>

definition newSession :: "string \<Rightarrow> nat \<Rightarrow> nat \<Rightarrow> Game" where
  "newSession gameType N K =
     \<lparr>gtype = gameType, players = initPlayers, gameboard = initGameboard (int N),
      turn = 0, winCase = K, remainingEmptyCells = int N * int N\<rparr>"

text \<open>
  What holds of a session at the prompt: the players and the board are as the program
  makes them, and no line of the board holds a run (a run ends the game).
\<close>

definition awaitingMove :: "nat \<Rightarrow> nat \<Rightarrow> Game \<Rightarrow> bool" where
  "awaitingMove N K game =
     (playersXO game \<and> square N (gameboard game) \<and> boardXO (gameboard game) \<and>
      winCase game = K \<and> turn game \<le> 1 \<and>
      \<not> anyRun (gameboard game) N ''X'' K \<and> \<not> anyRun (gameboard game) N ''O'' K)"



section \<open>Example sessions\<close>

text \<open>
  The tic-tac-toe session after the moves \<open>(0,0)\<close>, \<open>(1,1)\<close>, \<open>(0,1)\<close>, \<open>(1,0)\<close>,
  \<open>(0,2)\<close>: \<open>X\<close> has completed the top row and the turn has passed to \<open>O\<close>.
\<close>

definition topRowSession :: Game where
  "topRowSession =
     \<lparr>gtype = ''tic-tac-toe'', players = initPlayers,
      gameboard = [[Str ''X'', Str ''X'', Str ''X''],
                   [Str ''O'', Str ''O'', Str ''''],
                   [Str '''', Str '''', Str '''']],
      turn = 1, winCase = 3, remainingEmptyCells = 4\<rparr>"


text \<open>A full board without a run of three.\<close>

definition fullBoardSession :: Game where
  "fullBoardSession =
     \<lparr>gtype = ''tic-tac-toe'', players = initPlayers,
      gameboard = [[Str ''X'', Str ''O'', Str ''X''],
                   [Str ''X'', Str ''O'', Str ''O''],
                   [Str ''O'', Str ''X'', Str ''X'']],
      turn = 1, winCase = 3, remainingEmptyCells = 0\<rparr>"

text \<open>The session after the two moves \<open>(0,0)\<close> and \<open>(1,1)\<close>.\<close>

definition openSession :: Game where
  "openSession =
     \<lparr>gtype = ''tic-tac-toe'', players = initPlayers,
      gameboard = [[Str ''X'', Str '''', Str ''''],
                   [Str '''', Str ''O'', Str ''''],
                   [Str '''', Str '''', Str '''']],
      turn = 0, winCase = 3, remainingEmptyCells = 7\<rparr>"

text \<open>The session at the prompt after the moves \<open>(0,0)\<close>, \<open>(1,1)\<close>, \<open>(0,1)\<close>, \<open>(1,0)\<close>.\<close>

definition fourMovesSession :: Game where
  "fourMovesSession =
     \<lparr>gtype = ''tic-tac-toe'', players = initPlayers,
      gameboard = [[Str ''X'', Str ''X'', Str ''''],
                   [Str ''O'', Str ''O'', Str ''''],
                   [Str '''', Str '''', Str '''']],
      turn = 0, winCase = 3, remainingEmptyCells = 5\<rparr>"

text \<open>
  The session at the prompt after the moves \<open>(0,0)\<close>, \<open>(1,0)\<close>, \<open>(0,1)\<close>, \<open>(1,1)\<close>,
  \<open>(2,2)\<close>, and the session after \<open>O\<close> then takes \<open>(1,2)\<close>.
\<close>

definition fiveMovesSession :: Game where
  "fiveMovesSession =
     \<lparr>gtype = ''tic-tac-toe'', players = initPlayers,
      gameboard = [[Str ''X'', Str ''X'', Str ''''],
                   [Str ''O'', Str ''O'', Str ''''],
                   [Str '''', Str '''', Str ''X'']],
      turn = 1, winCase = 3, remainingEmptyCells = 4\<rparr>"

definition middleRowSession :: Game where
  "middleRowSession =
     \<lparr>gtype = ''tic-tac-toe'', players = initPlayers,
      gameboard = [[Str ''X'', Str ''X'', Str ''''],
                   [Str ''O'', Str ''O'', Str ''O''],
                   [Str '''', Str '''', Str ''X'']],
      turn = 0, winCase = 3, remainingEmptyCells = 3\<rparr>"

section \<open>Board creation\<close>

lemma initRow_eq: "initRow sz j r = r @ replicate (nat (sz - j)) (Str '''')"
proof (induction sz j r rule: initRow.induct)
  case (1 sz j r)
  show ?case
  proof (cases "j < sz")
    case True
    then have n: "nat (sz - j) = Suc (nat (sz - (j + 1)))" by simp
    have "initRow sz j r = initRow sz (j + 1) (r @ [Str ''''])"
      using True by (subst initRow.simps) simp
    also have "\<dots> = (r @ [Str '''']) @ replicate (nat (sz - (j + 1))) (Str '''')"
      using "1" True by simp
    finally show ?thesis by (simp add: n)
  next
    case False
    then show ?thesis by (subst initRow.simps) simp
  qed
qed

lemma initRows_eq:
  "initRows sz i gb = gb @ replicate (nat (sz - i)) (replicate (nat sz) (Str ''''))"
proof (induction sz i gb rule: initRows.induct)
  case (1 sz i gb)
  show ?case
  proof (cases "i < sz")
    case True
    then have n: "nat (sz - i) = Suc (nat (sz - (i + 1)))" by simp
    have "initRows sz i gb = initRows sz (i + 1) (gb @ [initRow sz 0 []])"
      using True by (subst initRows.simps) simp
    also have "\<dots> = (gb @ [initRow sz 0 []])
        @ replicate (nat (sz - (i + 1))) (replicate (nat sz) (Str ''''))"
      using "1" True by simp
    finally show ?thesis by (simp add: n initRow_eq)
  next
    case False
    then show ?thesis by (subst initRows.simps) simp
  qed
qed

lemma initGameboard_eq:
  "initGameboard sz = replicate (nat sz) (replicate (nat sz) (Str ''''))"
  by (simp add: initGameboard_def initRows_eq)

lemma square_replicate: "square N (replicate N (replicate N c))"
  by (simp add: square_def list_all_iff)

text \<open>
  Claim C9 (as amended).  \<^verbatim>\<open>initGameboard\<close> called with a size of at least 1 returns the
  \<open>N\<close> x \<open>N\<close> board whose cells are all the empty string.  Called with a size below 1 it
  does not fail: both loops are skipped and it returns the board without rows.
  \<^verbatim>\<open>initGame\<close> never fails either: it takes no size, and creates the 3 x 3 session with
  win length 3 for tic-tac-toe and the 10 x 10 session with win length 5 for every other
  game type, with the counter of empty cells at \<open>N * N\<close>.
\<close>

theorem initGameboard_creates:
  "(1 \<le> sz \<longrightarrow>
      initGameboard sz = replicate (nat sz) (replicate (nat sz) (Str '''')) \<and>
      square (nat sz) (initGameboard sz) \<and>
      emptyCells (initGameboard sz) = nat sz * nat sz) \<and>
   (sz < 1 \<longrightarrow> initGameboard sz = []) \<and>
   gameboard (initGame gameType) =
     (if gameType = TIC_TAC_TOE then initGameboard 3 else initGameboard 10) \<and>
   winCase (initGame gameType) = (if gameType = TIC_TAC_TOE then 3 else 5) \<and>
   remainingEmptyCells (initGame gameType) = (if gameType = TIC_TAC_TOE then 9 else 100)"
proof -
  have e: "emptyCells (replicate n (replicate n (Str ''''))) = n * n" for n
    by (simp add: emptyCells_def truthy_def sum_list_replicate)
  show ?thesis
    by (simp add: initGameboard_eq square_replicate e initGame_def)
qed

theorem initGameboard_creates_witness:
  "initGameboard 3 = [[Str '''', Str '''', Str ''''], [Str '''', Str '''', Str ''''],
                      [Str '''', Str '''', Str '''']] \<and>
   square 3 (initGameboard 3) \<and>
   initGameboard 0 = []"
  using initGameboard_creates [of 3 "''gomoku''"] initGameboard_creates [of 0 "''gomoku''"]
  by (simp add: numeral_3_eq_3 square_def)

text \<open>
  The claim as written fails.  \<^verbatim>\<open>initGameboard\<close> has no failing path (which is why it
  is a plain function here): for the sizes 0 and -1 it returns a board, the one without
  rows, and the program has no error for a bad size.
\<close>

theorem initGameboard_size_below_one_returns:
  "initGameboard 0 = [] \<and> initGameboard (- 1) = [] \<and> square 0 (initGameboard 0)"
  by (simp add: initGameboard_eq square_def)

section \<open>The linearized text and the pattern search\<close>

lemma foldl_append_concat: "foldl (\<lambda>acc x. acc @ f x) acc xs = acc @ concat (map f xs)"
  by (induction xs arbitrary: acc) simp_all

lemma rowToStr_eq: "rowToStr r = concat (map cellMark r)"
  by (simp add: rowToStr_def foldl_append_concat)

lemma concatGameboard_eq:
  "concatGameboard gb = concat (map (\<lambda>r. rowToStr r @ ROW_BREAK) gb)"
  by (simp add: concatGameboard_def foldl_append_concat)

lemma take_eq_iff_nth:
  "take (length pat) s = pat \<longleftrightarrow> length pat \<le> length s \<and> (\<forall>j<length pat. s ! j = pat ! j)"
  by (auto simp: list_eq_iff_nth_eq)

lemma regexpTest_nth:
  "regexpTest pat s \<longleftrightarrow>
     (\<exists>i. i + length pat \<le> length s \<and> (\<forall>j<length pat. s ! (i + j) = pat ! j))"
proof (induction s)
  case Nil
  then show ?case by auto
next
  case (Cons c cs)
  have "(\<exists>i. i + length pat \<le> length (c # cs) \<and> (\<forall>j<length pat. (c # cs) ! (i + j) = pat ! j))
        \<longleftrightarrow> (length pat \<le> length (c # cs) \<and> (\<forall>j<length pat. (c # cs) ! j = pat ! j)) \<or>
            (\<exists>i. i + length pat \<le> length cs \<and> (\<forall>j<length pat. cs ! (i + j) = pat ! j))"
    (is "?L \<longleftrightarrow> ?A \<or> ?B")
  proof
    assume ?L
    then obtain i where i: "i + length pat \<le> length (c # cs)"
      "\<forall>j<length pat. (c # cs) ! (i + j) = pat ! j" by blast
    show "?A \<or> ?B"
    proof (cases i)
      case 0
      with i show ?thesis by simp
    next
      case (Suc i')
      with i have "i' + length pat \<le> length cs \<and> (\<forall>j<length pat. cs ! (i' + j) = pat ! j)"
        by simp
      then show ?thesis by blast
    qed
  next
    assume "?A \<or> ?B"
    then show ?L
    proof
      assume ?A
      then have "0 + length pat \<le> length (c # cs) \<and>
          (\<forall>j<length pat. (c # cs) ! (0 + j) = pat ! j)" by simp
      then show ?L by blast
    next
      assume ?B
      then obtain i where "i + length pat \<le> length cs" "\<forall>j<length pat. cs ! (i + j) = pat ! j"
        by blast
      then have "Suc i + length pat \<le> length (c # cs) \<and>
          (\<forall>j<length pat. (c # cs) ! (Suc i + j) = pat ! j)" by simp
      then show ?L by blast
    qed
  qed
  with Cons show ?case
    by (simp only: regexpTest.simps take_eq_iff_nth)
qed

lemma take_sep:
  assumes "b \<notin> set pat"
  shows "take (length pat) (xs @ b # ys) = pat \<longleftrightarrow> take (length pat) xs = pat"
proof (cases "length pat \<le> length xs")
  case True
  then show ?thesis by simp
next
  case False
  then obtain d where d: "length pat - length xs = Suc d"
    by (cases "length pat - length xs") auto
  have "b \<in> set (take (length pat) (xs @ b # ys))"
    by (simp add: d)
  moreover have "take (length pat) xs \<noteq> pat"
  proof
    assume "take (length pat) xs = pat"
    then have "length (take (length pat) xs) = length pat" by simp
    with False show False by simp
  qed
  ultimately show ?thesis using assms by metis
qed

lemma regexpTest_sep:
  assumes "b \<notin> set pat" "pat \<noteq> []"
  shows "regexpTest pat (s1 @ b # s2) \<longleftrightarrow> regexpTest pat s1 \<or> regexpTest pat s2"
proof (induction s1)
  case Nil
  have "take (length pat) (b # s2) \<noteq> pat"
    using take_sep [OF assms(1), of "[]" s2] assms(2) by auto
  with assms show ?case by simp
next
  case (Cons c cs)
  have "take (length pat) ((c # cs) @ b # s2) = pat \<longleftrightarrow> take (length pat) (c # cs) = pat"
    by (rule take_sep [OF assms(1)])
  with Cons show ?case by auto
qed

lemma regexpTest_concat_rows:
  assumes "b \<notin> set pat" "pat \<noteq> []"
  shows "regexpTest pat (concat (map (\<lambda>r. f r @ [b]) gb)) \<longleftrightarrow> (\<exists>r\<in>set gb. regexpTest pat (f r))"
  using assms by (induction gb) (simp_all add: regexpTest_sep)


lemma hasRun_iff:
  "hasRun m K s \<longleftrightarrow> (\<exists>i. i + K \<le> length s \<and> (\<forall>j<K. s ! (i + j) = Str m))"
proof -
  have a: "i < Suc (length s) - K \<longleftrightarrow> i + K \<le> length s" for i by arith
  have "hasRun m K s \<longleftrightarrow> (\<exists>i. i < Suc (length s) - K \<and> (\<forall>j<K. s ! (i + j) = Str m))"
    by (simp add: hasRun_def list_ex_iff list_all_iff Bex_def Ball_def)
  then show ?thesis by (simp only: a)
qed

lemma cellMark_XO:
  assumes "marksXO cell"
  shows "\<exists>ch. cellMark cell = [ch] \<and>
          (ch = CHR ''X'' \<longleftrightarrow> cell = Str ''X'') \<and> (ch = CHR ''O'' \<longleftrightarrow> cell = Str ''O'')"
  using assms
  by (cases cell) (auto simp: marksXO_def truthy_def cellMark_def EMPTY_CELL_MARK_def)

lemma rowToStr_nth:
  assumes "list_all marksXO r"
  shows "length (rowToStr r) = length r \<and>
         (\<forall>i<length r. (rowToStr r ! i = CHR ''X'' \<longleftrightarrow> r ! i = Str ''X'') \<and>
                        (rowToStr r ! i = CHR ''O'' \<longleftrightarrow> r ! i = Str ''O''))"
  using assms
proof (induction r)
  case Nil
  then show ?case by (simp add: rowToStr_eq)
next
  case (Cons cell r)
  from Cons.prems obtain ch where ch: "cellMark cell = [ch]"
    "ch = CHR ''X'' \<longleftrightarrow> cell = Str ''X''" "ch = CHR ''O'' \<longleftrightarrow> cell = Str ''O''"
    using cellMark_XO [of cell] by auto
  have eq: "rowToStr (cell # r) = ch # rowToStr r"
    by (simp add: rowToStr_eq ch)
  from Cons have ih: "length (rowToStr r) = length r"
    "\<And>i. i < length r \<Longrightarrow> (rowToStr r ! i = CHR ''X'' \<longleftrightarrow> r ! i = Str ''X'') \<and>
                        (rowToStr r ! i = CHR ''O'' \<longleftrightarrow> r ! i = Str ''O'')"
    by simp_all
  show ?case
  proof (intro conjI allI impI)
    show "length (rowToStr (cell # r)) = length (cell # r)" by (simp add: eq ih)
  next
    fix i assume "i < length (cell # r)"
    then show "(rowToStr (cell # r) ! i = CHR ''X'') = ((cell # r) ! i = Str ''X'')"
      using ch ih(2) by (cases i) (simp_all add: eq)
  next
    fix i assume "i < length (cell # r)"
    then show "(rowToStr (cell # r) ! i = CHR ''O'') = ((cell # r) ! i = Str ''O'')"
      using ch ih(2) by (cases i) (simp_all add: eq)
  qed
qed

lemma regexpTest_row:
  assumes "list_all marksXO r" "c = CHR ''X'' \<or> c = CHR ''O''"
  shows "regexpTest (replicate K c) (rowToStr r) \<longleftrightarrow> hasRun [c] K r"
proof -
  note n = rowToStr_nth [OF assms(1)]
  have "(\<forall>j<K. rowToStr r ! (i + j) = c) \<longleftrightarrow> (\<forall>j<K. r ! (i + j) = Str [c])"
    if "i + K \<le> length r" for i
  proof -
    have "rowToStr r ! (i + j) = c \<longleftrightarrow> r ! (i + j) = Str [c]" if "j < K" for j
    proof -
      from that \<open>i + K \<le> length r\<close> have "i + j < length r" by simp
      with n assms(2) show ?thesis by auto
    qed
    then show ?thesis by simp
  qed
  then have "(\<exists>i. i + K \<le> length r \<and> (\<forall>j<K. rowToStr r ! (i + j) = c))
     \<longleftrightarrow> (\<exists>i. i + K \<le> length r \<and> (\<forall>j<K. r ! (i + j) = Str [c]))"
    by blast
  then show ?thesis
    using n by (simp add: regexpTest_nth hasRun_iff)
qed

lemma regexpTest_concatGameboard:
  assumes "boardXO gb" "c = CHR ''X'' \<or> c = CHR ''O''" "0 < K"
  shows "regexpTest (replicate K c) (concatGameboard gb) \<longleftrightarrow> (\<exists>r\<in>set gb. hasRun [c] K r)"
proof -
  have b: "CHR ''B'' \<notin> set (replicate K c)" using assms(2) by auto
  have ne: "replicate K c \<noteq> []" using assms(3) by simp
  have "regexpTest (replicate K c) (concatGameboard gb)
        \<longleftrightarrow> (\<exists>r\<in>set gb. regexpTest (replicate K c) (rowToStr r))"
    unfolding concatGameboard_eq ROW_BREAK_def
    by (rule regexpTest_concat_rows [OF b ne])
  also have "\<dots> \<longleftrightarrow> (\<exists>r\<in>set gb. hasRun [c] K r)"
    using assms(1,2) regexpTest_row [of _ c K]
    by (auto simp: boardXO_def list_all_iff)
  finally show ?thesis .
qed

lemma hasWinner_XO:
  assumes "playersXO game"
  shows "hasWinner s game =
     Inr (regexpTest (replicate (winCase game) CHR ''X'') s \<or>
          regexpTest (replicate (winCase game) CHR ''O'') s)"
proof -
  from assms obtain p0 p1 where p: "players game = [p0, p1]" "name p0 = ''X''" "name p1 = ''O''"
    by (auto simp: playersXO_def)
  show ?thesis
    by (simp add: hasWinner_def arrayGet_def p newRegExp_def)
qed

lemma hasWinner_runs:
  assumes "playersXO game" "boardXO gb" "0 < winCase game"
  shows "hasWinner (concatGameboard gb) game =
     Inr (\<exists>r\<in>set gb. hasRun ''X'' (winCase game) r \<or> hasRun ''O'' (winCase game) r)"
  using assms by (auto simp: hasWinner_XO regexpTest_concatGameboard)

section \<open>The loops of the two diagonal transforms in closed form\<close>

lemma diagonalRowLoop_eq:
  "diagonalRowLoop gb i j acc =
     acc @ map (\<lambda>j. cellAt (gb ! j) (int (i - j)))
             (filter (\<lambda>j. j < length gb \<and> i - j < length gb) [j..<Suc i])"
proof (induction gb i j acc rule: diagonalRowLoop.induct)
  case (1 gb i j acc)
  show ?case
  proof (cases "j \<le> i")
    case True
    then have u: "[j..<Suc i] = j # [Suc j..<Suc i]" by (simp add: upt_conv_Cons)
    have "diagonalRowLoop gb i j acc =
        diagonalRowLoop gb i (j + 1)
          (if j < length gb \<and> i - j < length gb
           then acc @ [cellAt (gb ! j) (int (i - j))] else acc)"
      using True by (subst diagonalRowLoop.simps) (simp add: Let_def)
    also have "\<dots> = (if j < length gb \<and> i - j < length gb
           then acc @ [cellAt (gb ! j) (int (i - j))] else acc) @
         map (\<lambda>j. cellAt (gb ! j) (int (i - j)))
             (filter (\<lambda>j. j < length gb \<and> i - j < length gb) [j + 1..<Suc i])"
      using "1" [OF True refl] by simp
    finally show ?thesis unfolding u by (simp del: upt_Suc)
  next
    case False
    then show ?thesis by (subst diagonalRowLoop.simps) simp
  qed
qed

lemma antiDiagonalRowLoop_eq:
  "antiDiagonalRowLoop gb i j acc =
     acc @ map (\<lambda>j. cellAt (gb ! j) (int (length gb) - 1 - int i + int j))
             (filter (\<lambda>j. j < length gb \<and> int (length gb) - 1 - int i + int j \<ge> 0) [j..<Suc i])"
proof (induction gb i j acc rule: antiDiagonalRowLoop.induct)
  case (1 gb i j acc)
  show ?case
  proof (cases "j \<le> i")
    case True
    then have u: "[j..<Suc i] = j # [Suc j..<Suc i]" by (simp add: upt_conv_Cons)
    have "antiDiagonalRowLoop gb i j acc =
        antiDiagonalRowLoop gb i (j + 1)
          (if j < length gb \<and> int (length gb) - 1 - int i + int j \<ge> 0
           then acc @ [cellAt (gb ! j) (int (length gb) - 1 - int i + int j)] else acc)"
      using True by (subst antiDiagonalRowLoop.simps) (simp add: Let_def)
    also have "\<dots> = (if j < length gb \<and> int (length gb) - 1 - int i + int j \<ge> 0
           then acc @ [cellAt (gb ! j) (int (length gb) - 1 - int i + int j)] else acc) @
         map (\<lambda>j. cellAt (gb ! j) (int (length gb) - 1 - int i + int j))
             (filter (\<lambda>j. j < length gb \<and> int (length gb) - 1 - int i + int j \<ge> 0)
                [j + 1..<Suc i])"
      using "1" [OF True refl] by simp
    finally show ?thesis unfolding u by (simp del: upt_Suc)
  next
    case False
    then show ?thesis by (subst antiDiagonalRowLoop.simps) simp
  qed
qed

lemma diagonalLoop_eq:
  "diagonalLoop gb i acc =
     acc @ map (\<lambda>i. diagonalRowLoop gb i 0 []) [i..<nat (2 * (int (length gb) - 1) + 1)]"
proof (induction gb i acc rule: diagonalLoop.induct)
  case (1 gb i acc)
  let ?n = "nat (2 * (int (length gb) - 1) + 1)"
  show ?case
  proof (cases "int i \<le> 2 * (int (length gb) - 1)")
    case True
    then have "i < ?n" by linarith
    then have u: "[i..<?n] = i # [Suc i..<?n]" by (simp add: upt_conv_Cons)
    have "diagonalLoop gb i acc = diagonalLoop gb (i + 1) (acc @ [diagonalRowLoop gb i 0 []])"
      using True by (subst diagonalLoop.simps) simp
    also have "\<dots> = acc @ map (\<lambda>i. diagonalRowLoop gb i 0 []) (i # [Suc i..<?n])"
      using "1" [OF True] by simp
    finally show ?thesis unfolding u .
  next
    case False
    then have "\<not> i < ?n" by linarith
    with False show ?thesis by (subst diagonalLoop.simps) simp
  qed
qed

lemma antiDiagonalLoop_eq:
  "antiDiagonalLoop gb i acc =
     acc @ map (\<lambda>i. antiDiagonalRowLoop gb i 0 []) [i..<nat (2 * (int (length gb) - 1) + 1)]"
proof (induction gb i acc rule: antiDiagonalLoop.induct)
  case (1 gb i acc)
  let ?n = "nat (2 * (int (length gb) - 1) + 1)"
  show ?case
  proof (cases "int i \<le> 2 * (int (length gb) - 1)")
    case True
    then have "i < ?n" by linarith
    then have u: "[i..<?n] = i # [Suc i..<?n]" by (simp add: upt_conv_Cons)
    have "antiDiagonalLoop gb i acc =
        antiDiagonalLoop gb (i + 1) (acc @ [antiDiagonalRowLoop gb i 0 []])"
      using True by (subst antiDiagonalLoop.simps) simp
    also have "\<dots> = acc @ map (\<lambda>i. antiDiagonalRowLoop gb i 0 []) (i # [Suc i..<?n])"
      using "1" [OF True] by simp
    finally show ?thesis unfolding u .
  next
    case False
    then have "\<not> i < ?n" by linarith
    with False show ?thesis by (subst antiDiagonalLoop.simps) simp
  qed
qed

lemma filter_range_upt: "filter (\<lambda>j. a \<le> j \<and> j < b) [0..<n] = [a..<min b n]"
proof (induction n)
  case 0
  then show ?case by simp
next
  case (Suc n)
  show ?case
  proof (cases "n < b")
    case True
    then have "min b n = n" "min b (Suc n) = Suc n" by simp_all
    with Suc True show ?thesis by simp
  next
    case False
    then have "min b n = b" "min b (Suc n) = b" by simp_all
    with Suc False show ?thesis by simp
  qed
qed

section \<open>The four linearizations of a square board\<close>

lemma square_nth: "square N gb \<Longrightarrow> r < N \<Longrightarrow> length (gb ! r) = N"
  by (simp add: square_def list_all_length)

lemma cellAt_square: "square N gb \<Longrightarrow> r < N \<Longrightarrow> c < N \<Longrightarrow> cellAt (gb ! r) (int c) = gb ! r ! c"
  by (simp add: cellAt_def arrayGet_def square_nth)

lemma diagonal_bound: "nat (2 * (int N - 1) + 1) = 2 * N - 1"
  by (cases N) simp_all

lemma diagonalizeGameboard_square:
  assumes "square N gb"
  shows "diagonalizeGameboard gb =
     map (\<lambda>d. map (\<lambda>r. gb ! r ! (d - r)) [d + 1 - N..<min N (Suc d)]) [0..<2 * N - 1]"
proof -
  have len: "length gb = N" using assms by (simp add: square_def)
  have row: "diagonalRowLoop gb d 0 [] = map (\<lambda>r. gb ! r ! (d - r)) [d + 1 - N..<min N (Suc d)]"
    for d
  proof -
    have c: "(j < N \<and> d - j < N) \<longleftrightarrow> (d + 1 - N \<le> j \<and> j < N)" for j by arith
    have f: "filter (\<lambda>j. j < N \<and> d - j < N) [0..<Suc d]
             = [d + 1 - N..<min N (Suc d)]"
      unfolding c by (rule filter_range_upt)
    have "map (\<lambda>j. cellAt (gb ! j) (int (d - j))) [d + 1 - N..<min N (Suc d)]
          = map (\<lambda>r. gb ! r ! (d - r)) [d + 1 - N..<min N (Suc d)]"
    proof (rule map_cong [OF refl])
      fix j assume "j \<in> set [d + 1 - N..<min N (Suc d)]"
      then have "j < N" "d - j < N" by auto
      then show "cellAt (gb ! j) (int (d - j)) = gb ! j ! (d - j)"
        using assms by (simp add: cellAt_square)
    qed
    then show ?thesis by (simp only: diagonalRowLoop_eq len f append_Nil)
  qed
  show ?thesis
    by (simp only: diagonalizeGameboard_def diagonalLoop_eq len diagonal_bound row append_Nil)
qed

lemma antiDiagonalizeGameboard_square:
  assumes "square N gb"
  shows "antiDiagonalizeGameboard gb =
     map (\<lambda>d. map (\<lambda>r. gb ! r ! (N - 1 + r - d)) [d + 1 - N..<min N (Suc d)]) [0..<2 * N - 1]"
proof -
  have len: "length gb = N" using assms by (simp add: square_def)
  have row: "antiDiagonalRowLoop gb d 0 [] =
      map (\<lambda>r. gb ! r ! (N - 1 + r - d)) [d + 1 - N..<min N (Suc d)]" for d
  proof -
    have c: "(j < N \<and> int N - 1 - int d + int j \<ge> 0) \<longleftrightarrow> (d + 1 - N \<le> j \<and> j < N)" for j
      by arith
    have f: "filter (\<lambda>j. j < N \<and> int N - 1 - int d + int j \<ge> 0) [0..<Suc d]
             = [d + 1 - N..<min N (Suc d)]"
      unfolding c by (rule filter_range_upt)
    have "map (\<lambda>j. cellAt (gb ! j) (int N - 1 - int d + int j)) [d + 1 - N..<min N (Suc d)]
          = map (\<lambda>r. gb ! r ! (N - 1 + r - d)) [d + 1 - N..<min N (Suc d)]"
    proof (rule map_cong [OF refl])
      fix j assume "j \<in> set [d + 1 - N..<min N (Suc d)]"
      then have j: "j < N" "d + 1 \<le> N + j" "j \<le> d" by auto
      then have e: "int N - 1 - int d + int j = int (N - 1 + j - d)"
        and b: "N - 1 + j - d < N"
        by linarith+
      show "cellAt (gb ! j) (int N - 1 - int d + int j) = gb ! j ! (N - 1 + j - d)"
        unfolding e by (rule cellAt_square [OF assms j(1) b])
    qed
    then show ?thesis by (simp only: antiDiagonalRowLoop_eq len f append_Nil)
  qed
  show ?thesis
    by (simp only: antiDiagonalizeGameboard_def antiDiagonalLoop_eq len diagonal_bound row
        append_Nil)
qed

lemma map_by_index: "map f xs = map (\<lambda>i. f (xs ! i)) [0..<length xs]"
proof -
  have "map f xs = map f (map ((!) xs) [0..<length xs])" by (simp only: map_nth)
  then show ?thesis by (simp only: map_map comp_def)
qed

lemma transposeGameboard_square:
  assumes "square N gb" "0 < N"
  shows "transposeGameboard gb = Inr (map (\<lambda>c. map (\<lambda>r. gb ! r ! c) [0..<N]) [0..<N])"
proof -
  have len: "length gb = N" using assms by (simp add: square_def)
  from assms len obtain r0 rs where gb: "gb = r0 # rs"
    by (cases gb) auto
  have "r0 = gb ! 0" by (simp add: gb)
  then have l0: "length r0 = N" using square_nth [OF assms] by simp
  have col: "map (\<lambda>r. cellAt r (int c)) gb = map (\<lambda>r. gb ! r ! c) [0..<N]" if "c < N" for c
  proof -
    have "map (\<lambda>r. cellAt r (int c)) gb = map (\<lambda>r. cellAt (gb ! r) (int c)) [0..<N]"
      using map_by_index [of "\<lambda>r. cellAt r (int c)" gb] by (simp only: len)
    also have "\<dots> = map (\<lambda>r. gb ! r ! c) [0..<N]"
      by (rule map_cong [OF refl]) (simp add: cellAt_square [OF assms(1) _ that])
    finally show ?thesis .
  qed
  have "transposeGameboard (r0 # rs) =
      Inr (map (\<lambda>i. map (\<lambda>r. cellAt r (int i)) (r0 # rs)) [0..<length r0])"
    by (simp add: transposeGameboard_def)
  then have "transposeGameboard gb = Inr (map (\<lambda>i. map (\<lambda>r. cellAt r (int i)) gb) [0..<N])"
    by (simp only: gb [symmetric] l0)
  also have "map (\<lambda>i. map (\<lambda>r. cellAt r (int i)) gb) [0..<N]
     = map (\<lambda>c. map (\<lambda>r. gb ! r ! c) [0..<N]) [0..<N]"
    by (rule map_cong [OF refl]) (simp add: col)
  finally show ?thesis .
qed

lemma rows_square:
  assumes "square N gb"
  shows "gb = map (\<lambda>r. map (\<lambda>c. gb ! r ! c) [0..<N]) [0..<N]"
proof -
  have len: "length gb = N" using assms by (simp add: square_def)
  have r: "gb ! r = map (\<lambda>c. gb ! r ! c) [0..<N]" if "r < N" for r
    by (rule map_nth [of "gb ! r", unfolded square_nth [OF assms that], symmetric])
  have "gb = map (\<lambda>r. gb ! r) [0..<N]"
    by (rule map_nth [of gb, unfolded len, symmetric])
  also have "\<dots> = map (\<lambda>r. map (\<lambda>c. gb ! r ! c) [0..<N]) [0..<N]"
  proof (rule map_cong [OF refl])
    fix x assume "x \<in> set [0..<N]"
    then have "x < N" by simp
    then show "gb ! x = map (\<lambda>c. gb ! x ! c) [0..<N]" by (rule r)
  qed
  finally show ?thesis .
qed

text \<open>
  Claim C8.  On an \<open>N\<close> x \<open>N\<close> board both diagonal transforms produce \<open>2N - 1\<close>
  sequences.  The \<open>d\<close>-th sequence of \<^verbatim>\<open>diagonalizeGameboard\<close> holds the cells
  \<open>(r, d - r)\<close> of the board for \<open>r\<close> from \<open>max 0 (d - N + 1)\<close> to \<open>min d (N - 1)\<close>, in
  this order (a single cell for \<open>d = 0\<close> and \<open>d = 2N - 2\<close>); the \<open>d\<close>-th sequence of
  \<^verbatim>\<open>antiDiagonalizeGameboard\<close> holds the cells \<open>(r, N - 1 - d + r)\<close> for exactly the rows
  \<open>r\<close> for which the column is on the board.  The sequences hold the values of the
  board's cells; the transforms read the board and build new arrays, so the board is
  left as it was (they are functions of the board here).
\<close>

theorem diagonal_transforms_enumerate:
  assumes "square N gb" "0 < N"
  shows "length (diagonalizeGameboard gb) = 2 * N - 1 \<and>
         length (antiDiagonalizeGameboard gb) = 2 * N - 1 \<and>
         (\<forall>d<2 * N - 1.
            diagonalizeGameboard gb ! d =
              map (\<lambda>r. gb ! r ! (d - r))
                [nat (max 0 (int d - int N + 1))..<Suc (min d (N - 1))] \<and>
            antiDiagonalizeGameboard gb ! d =
              map (\<lambda>r. gb ! r ! nat (int N - 1 - int d + int r))
                (filter (\<lambda>r. 0 \<le> int N - 1 - int d + int r \<and>
                             int N - 1 - int d + int r < int N) [0..<N]))"
proof (intro conjI allI impI)
  show "length (diagonalizeGameboard gb) = 2 * N - 1"
    by (simp add: diagonalizeGameboard_square [OF assms(1)])
  show "length (antiDiagonalizeGameboard gb) = 2 * N - 1"
    by (simp add: antiDiagonalizeGameboard_square [OF assms(1)])
next
  fix d assume d: "d < 2 * N - 1"
  have lo: "nat (max 0 (int d - int N + 1)) = d + 1 - N" by linarith
  have hi: "Suc (min d (N - 1)) = min N (Suc d)" using assms(2) by linarith
  show "diagonalizeGameboard gb ! d =
      map (\<lambda>r. gb ! r ! (d - r)) [nat (max 0 (int d - int N + 1))..<Suc (min d (N - 1))]"
    unfolding lo hi using d by (simp add: diagonalizeGameboard_square [OF assms(1)] del: upt_Suc)
next
  fix d assume d: "d < 2 * N - 1"
  have c: "(0 \<le> int N - 1 - int d + int r \<and> int N - 1 - int d + int r < int N)
           \<longleftrightarrow> (d + 1 - N \<le> r \<and> r < Suc d)" for r
    by linarith
  have f: "filter (\<lambda>r. 0 \<le> int N - 1 - int d + int r \<and> int N - 1 - int d + int r < int N)
             [0..<N] = [d + 1 - N..<min N (Suc d)]"
    unfolding c by (simp only: filter_range_upt min.commute)
  have m: "map (\<lambda>r. gb ! r ! nat (int N - 1 - int d + int r)) [d + 1 - N..<min N (Suc d)]
         = map (\<lambda>r. gb ! r ! (N - 1 + r - d)) [d + 1 - N..<min N (Suc d)]"
  proof (rule map_cong [OF refl])
    fix r assume "r \<in> set [d + 1 - N..<min N (Suc d)]"
    then have "nat (int N - 1 - int d + int r) = N - 1 + r - d" by auto
    then show "gb ! r ! nat (int N - 1 - int d + int r) = gb ! r ! (N - 1 + r - d)" by simp
  qed
  show "antiDiagonalizeGameboard gb ! d =
      map (\<lambda>r. gb ! r ! nat (int N - 1 - int d + int r))
        (filter (\<lambda>r. 0 \<le> int N - 1 - int d + int r \<and>
                     int N - 1 - int d + int r < int N) [0..<N])"
    unfolding f m using d
    by (simp add: antiDiagonalizeGameboard_square [OF assms(1)] del: upt_Suc)
qed

theorem diagonal_transforms_enumerate_witness:
  "square 2 [[Str ''X'', Str ''O''], [Str '''', Str ''X'']] \<and>
   length (diagonalizeGameboard [[Str ''X'', Str ''O''], [Str '''', Str ''X'']]) = 3 \<and>
   diagonalizeGameboard [[Str ''X'', Str ''O''], [Str '''', Str ''X'']] ! 1
     = [Str ''O'', Str ''''] \<and>
   antiDiagonalizeGameboard [[Str ''X'', Str ''O''], [Str '''', Str ''X'']] ! 1
     = [Str ''X'', Str ''X'']"
proof -
  have sq: "square 2 [[Str ''X'', Str ''O''], [Str '''', Str ''X'']]"
    by (simp add: square_def)
  have r: "[0..<2] = [0, Suc 0]" "[Suc 0..<2] = [Suc 0]"
    by (simp_all add: numeral_2_eq_2)
  from diagonal_transforms_enumerate [OF sq] show ?thesis
    by (simp add: sq r)
qed

section \<open>Runs in the linearizations and runs on the board\<close>

lemma hasRun_map_upt:
  assumes "0 < K"
  shows "hasRun m K (map f [lo..<hi]) \<longleftrightarrow>
     (\<exists>r. lo \<le> r \<and> r + K \<le> hi \<and> (\<forall>j<K. f (r + j) = Str m))"
proof
  assume "hasRun m K (map f [lo..<hi])"
  then obtain i where i: "i + K \<le> hi - lo" "\<forall>j<K. map f [lo..<hi] ! (i + j) = Str m"
    by (auto simp: hasRun_iff)
  have "f (lo + i + j) = Str m" if "j < K" for j
  proof -
    from that i(1) have "i + j < hi - lo" by simp
    then have "map f [lo..<hi] ! (i + j) = f (lo + (i + j))" by simp
    with i(2) that show ?thesis by (simp add: add.assoc)
  qed
  moreover have "lo \<le> lo + i" "lo + i + K \<le> hi" using i(1) assms by simp_all
  ultimately show "\<exists>r. lo \<le> r \<and> r + K \<le> hi \<and> (\<forall>j<K. f (r + j) = Str m)" by blast
next
  assume "\<exists>r. lo \<le> r \<and> r + K \<le> hi \<and> (\<forall>j<K. f (r + j) = Str m)"
  then obtain r where r: "lo \<le> r" "r + K \<le> hi" "\<forall>j<K. f (r + j) = Str m" by blast
  have "map f [lo..<hi] ! (r - lo + j) = Str m" if "j < K" for j
  proof -
    from that r have "r - lo + j < hi - lo" by simp
    then have "map f [lo..<hi] ! (r - lo + j) = f (lo + (r - lo + j))" by simp
    also have "lo + (r - lo + j) = r + j" using r(1) by simp
    finally show ?thesis using r(3) that by simp
  qed
  moreover have "r - lo + K \<le> length (map f [lo..<hi])" using r by simp
  ultimately show "hasRun m K (map f [lo..<hi])"
    unfolding hasRun_iff by blast
qed

lemma less_Suc_diff: "i < Suc N - K \<longleftrightarrow> i + K \<le> (N::nat)"
  by arith

lemma rowRun_iff:
  "rowRun gb N m K \<longleftrightarrow> (\<exists>r<N. \<exists>c. c + K \<le> N \<and> (\<forall>j<K. gb ! r ! (c + j) = Str m))"
  by (simp add: rowRun_def list_ex_iff list_all_iff Bex_def Ball_def less_Suc_diff)

lemma colRun_iff:
  "colRun gb N m K \<longleftrightarrow> (\<exists>c<N. \<exists>r. r + K \<le> N \<and> (\<forall>j<K. gb ! (r + j) ! c = Str m))"
  by (simp add: colRun_def list_ex_iff list_all_iff Bex_def Ball_def less_Suc_diff)

lemma downLeftRun_iff:
  "downLeftRun gb N m K \<longleftrightarrow>
     (\<exists>r c. r + K \<le> N \<and> K - 1 \<le> c \<and> c < N \<and> (\<forall>j<K. gb ! (r + j) ! (c - j) = Str m))"
  by (simp add: downLeftRun_def list_ex_iff list_all_iff Bex_def Ball_def less_Suc_diff)

lemma downRightRun_iff:
  "downRightRun gb N m K \<longleftrightarrow>
     (\<exists>r c. r + K \<le> N \<and> c + K \<le> N \<and> (\<forall>j<K. gb ! (r + j) ! (c + j) = Str m))"
  by (simp add: downRightRun_def list_ex_iff list_all_iff Bex_def Ball_def less_Suc_diff)

lemma ex_set_map_upt: "(\<exists>s\<in>set (map g [0..<n]). P s) \<longleftrightarrow> (\<exists>d<n. P (g d))"
  by auto

lemma rows_runs:
  assumes "0 < K"
  shows "(\<exists>s\<in>set (map (\<lambda>r. map (\<lambda>c. gb ! r ! c) [0..<N]) [0..<N]). hasRun m K s)
         \<longleftrightarrow> rowRun gb N m K"
  unfolding ex_set_map_upt hasRun_map_upt [OF assms] rowRun_iff by simp

lemma cols_runs:
  assumes "0 < K"
  shows "(\<exists>s\<in>set (map (\<lambda>c. map (\<lambda>r. gb ! r ! c) [0..<N]) [0..<N]). hasRun m K s)
         \<longleftrightarrow> colRun gb N m K"
  unfolding ex_set_map_upt hasRun_map_upt [OF assms] colRun_iff by simp

lemma diagonal_runs:
  assumes "0 < K"
  shows "(\<exists>s\<in>set (map (\<lambda>d. map (\<lambda>r. gb ! r ! (d - r)) [d + 1 - N..<min N (Suc d)])
                      [0..<2 * N - 1]). hasRun m K s)
         \<longleftrightarrow> downLeftRun gb N m K"
  unfolding ex_set_map_upt hasRun_map_upt [OF assms] downLeftRun_iff
proof
  assume "\<exists>d<2 * N - 1. \<exists>r\<ge>d + 1 - N. r + K \<le> min N (Suc d) \<and>
            (\<forall>j<K. gb ! (r + j) ! (d - (r + j)) = Str m)"
  then obtain d r where dr: "d < 2 * N - 1" "d + 1 - N \<le> r" "r + K \<le> min N (Suc d)"
    "\<forall>j<K. gb ! (r + j) ! (d - (r + j)) = Str m" by blast
  have "gb ! (r + j) ! (d - r - j) = Str m" if "j < K" for j
    using dr(4) that by (simp add: diff_diff_left)
  moreover have "r + K \<le> N" "K - 1 \<le> d - r" "d - r < N" using dr(1,2,3) assms by linarith+
  ultimately show "\<exists>r c. r + K \<le> N \<and> K - 1 \<le> c \<and> c < N \<and>
      (\<forall>j<K. gb ! (r + j) ! (c - j) = Str m)" by blast
next
  assume "\<exists>r c. r + K \<le> N \<and> K - 1 \<le> c \<and> c < N \<and> (\<forall>j<K. gb ! (r + j) ! (c - j) = Str m)"
  then obtain r c where rc: "r + K \<le> N" "K - 1 \<le> c" "c < N"
    "\<forall>j<K. gb ! (r + j) ! (c - j) = Str m" by blast
  have "gb ! (r + j) ! (r + c - (r + j)) = Str m" if "j < K" for j
    using rc(4) that by simp
  moreover have "r + c < 2 * N - 1" "r + c + 1 - N \<le> r" "r + K \<le> min N (Suc (r + c))"
    using rc(1,2,3) assms by linarith+
  ultimately show "\<exists>d<2 * N - 1. \<exists>r\<ge>d + 1 - N. r + K \<le> min N (Suc d) \<and>
            (\<forall>j<K. gb ! (r + j) ! (d - (r + j)) = Str m)" by blast
qed

lemma antiDiagonal_runs:
  assumes "0 < K"
  shows "(\<exists>s\<in>set (map (\<lambda>d. map (\<lambda>r. gb ! r ! (N - 1 + r - d)) [d + 1 - N..<min N (Suc d)])
                      [0..<2 * N - 1]). hasRun m K s)
         \<longleftrightarrow> downRightRun gb N m K"
  unfolding ex_set_map_upt hasRun_map_upt [OF assms] downRightRun_iff
proof
  assume "\<exists>d<2 * N - 1. \<exists>r\<ge>d + 1 - N. r + K \<le> min N (Suc d) \<and>
            (\<forall>j<K. gb ! (r + j) ! (N - 1 + (r + j) - d) = Str m)"
  then obtain d r where dr: "d < 2 * N - 1" "d + 1 - N \<le> r" "r + K \<le> min N (Suc d)"
    "\<forall>j<K. gb ! (r + j) ! (N - 1 + (r + j) - d) = Str m" by blast
  have "gb ! (r + j) ! (N - 1 + r - d + j) = Str m" if "j < K" for j
  proof -
    have "N - 1 + (r + j) - d = N - 1 + r - d + j" using dr(1,2,3) assms by linarith
    with dr(4) that show ?thesis by metis
  qed
  moreover have "r + K \<le> N" "N - 1 + r - d + K \<le> N" using dr(1,2,3) assms by linarith+
  ultimately show "\<exists>r c. r + K \<le> N \<and> c + K \<le> N \<and>
      (\<forall>j<K. gb ! (r + j) ! (c + j) = Str m)" by blast
next
  assume "\<exists>r c. r + K \<le> N \<and> c + K \<le> N \<and> (\<forall>j<K. gb ! (r + j) ! (c + j) = Str m)"
  then obtain r c where rc: "r + K \<le> N" "c + K \<le> N"
    "\<forall>j<K. gb ! (r + j) ! (c + j) = Str m" by blast
  let ?d = "N - 1 + r - c"
  have "gb ! (r + j) ! (N - 1 + (r + j) - ?d) = Str m" if "j < K" for j
  proof -
    have "N - 1 + (r + j) - ?d = c + j" using rc(1,2) assms by linarith
    with rc(3) that show ?thesis by metis
  qed
  moreover have "?d < 2 * N - 1" "?d + 1 - N \<le> r" "r + K \<le> min N (Suc ?d)"
    using rc(1,2) assms by linarith+
  ultimately show "\<exists>d<2 * N - 1. \<exists>r\<ge>d + 1 - N. r + K \<le> min N (Suc d) \<and>
            (\<forall>j<K. gb ! (r + j) ! (N - 1 + (r + j) - d) = Str m)" by blast
qed

lemma marksXO_cell:
  assumes "boardXO gb" "square N gb" "r < N" "c < N"
  shows "marksXO (gb ! r ! c)"
proof -
  have "length gb = N" using assms(2) by (simp add: square_def)
  with assms(1,3) have "list_all marksXO (gb ! r)"
    by (simp add: boardXO_def list_all_length)
  with assms(4) square_nth [OF assms(2,3)] show ?thesis
    by (simp add: list_all_length)
qed

lemma boardXO_map_upt:
  assumes "\<And>d r. d < n \<Longrightarrow> lo d \<le> r \<Longrightarrow> r < hi d \<Longrightarrow> marksXO (f d r)"
  shows "boardXO (map (\<lambda>d. map (f d) [lo d..<hi d]) [0..<n])"
  using assms by (simp add: boardXO_def list_all_iff)

lemma rows_win:
  assumes "playersXO game" "boardXO (gameboard game)" "square N (gameboard game)"
    "0 < winCase game"
  shows "hasWinner (concatGameboard (gameboard game)) game =
     Inr (rowRun (gameboard game) N ''X'' (winCase game) \<or>
          rowRun (gameboard game) N ''O'' (winCase game))"
proof -
  let ?t = "map (\<lambda>r. map (\<lambda>c. gameboard game ! r ! c) [0..<N]) [0..<N]"
  have "(\<exists>s\<in>set (gameboard game). hasRun m (winCase game) s) \<longleftrightarrow>
        (\<exists>s\<in>set ?t. hasRun m (winCase game) s)" for m
    using rows_square [OF assms(3)] by simp
  then show ?thesis
    by (simp add: hasWinner_runs [OF assms(1,2,4)] rows_runs [OF assms(4)] ex_disj_distrib
        bex_disj_distrib del: set_map set_upt)
qed

lemma linearization_win:
  assumes "playersXO game" "0 < winCase game"
    and "boardXO t"
    and "\<And>m. (\<exists>s\<in>set t. hasRun m (winCase game) s) \<longleftrightarrow> R m"
  shows "hasWinner (concatGameboard t) game = Inr (R ''X'' \<or> R ''O'')"
  using assms(4) by (simp add: hasWinner_runs [OF assms(1,3,2)] bex_disj_distrib)

lemma cols_win:
  assumes "playersXO game" "boardXO (gameboard game)" "square N (gameboard game)"
    "0 < winCase game" "0 < N"
  shows "\<exists>t. transposeGameboard (gameboard game) = Inr t \<and>
     hasWinner (concatGameboard t) game =
       Inr (colRun (gameboard game) N ''X'' (winCase game) \<or>
            colRun (gameboard game) N ''O'' (winCase game))"
proof -
  let ?gb = "gameboard game"
  let ?t = "map (\<lambda>c. map (\<lambda>r. ?gb ! r ! c) [0..<N]) [0..<N]"
  have "boardXO (map (\<lambda>c. map (\<lambda>r. ?gb ! r ! c) [0..<N]) [0..<N])"
    by (rule boardXO_map_upt) (simp add: marksXO_cell [OF assms(2,3)])
  then have "hasWinner (concatGameboard ?t) game =
       Inr (colRun ?gb N ''X'' (winCase game) \<or> colRun ?gb N ''O'' (winCase game))"
    by (rule linearization_win [OF assms(1,4)]) (rule cols_runs [OF assms(4)])
  with transposeGameboard_square [OF assms(3,5)] show ?thesis by blast
qed

lemma diagonal_win:
  assumes "playersXO game" "boardXO (gameboard game)" "square N (gameboard game)"
    "0 < winCase game"
  shows "hasWinner (concatGameboard (diagonalizeGameboard (gameboard game))) game =
       Inr (downLeftRun (gameboard game) N ''X'' (winCase game) \<or>
            downLeftRun (gameboard game) N ''O'' (winCase game))"
proof -
  let ?gb = "gameboard game"
  have "boardXO (map (\<lambda>d. map (\<lambda>r. ?gb ! r ! (d - r)) [d + 1 - N..<min N (Suc d)])
                  [0..<2 * N - 1])"
  proof (rule boardXO_map_upt)
    fix d r assume "d < 2 * N - 1" "d + 1 - N \<le> r" "r < min N (Suc d)"
    then have "r < N" "d - r < N" by linarith+
    then show "marksXO (?gb ! r ! (d - r))" by (rule marksXO_cell [OF assms(2,3)])
  qed
  then show ?thesis
    unfolding diagonalizeGameboard_square [OF assms(3)]
    by (rule linearization_win [OF assms(1,4)]) (rule diagonal_runs [OF assms(4)])
qed

lemma antiDiagonal_win:
  assumes "playersXO game" "boardXO (gameboard game)" "square N (gameboard game)"
    "0 < winCase game"
  shows "hasWinner (concatGameboard (antiDiagonalizeGameboard (gameboard game))) game =
       Inr (downRightRun (gameboard game) N ''X'' (winCase game) \<or>
            downRightRun (gameboard game) N ''O'' (winCase game))"
proof -
  let ?gb = "gameboard game"
  have "boardXO (map (\<lambda>d. map (\<lambda>r. ?gb ! r ! (N - 1 + r - d)) [d + 1 - N..<min N (Suc d)])
                  [0..<2 * N - 1])"
  proof (rule boardXO_map_upt)
    fix d r assume "d < 2 * N - 1" "d + 1 - N \<le> r" "r < min N (Suc d)"
    then have "r < N" "N - 1 + r - d < N" by linarith+
    then show "marksXO (?gb ! r ! (N - 1 + r - d))" by (rule marksXO_cell [OF assms(2,3)])
  qed
  then show ?thesis
    unfolding antiDiagonalizeGameboard_square [OF assms(3)]
    by (rule linearization_win [OF assms(1,4)]) (rule antiDiagonal_runs [OF assms(4)])
qed

text \<open>The outcome of \<^verbatim>\<open>checkForWin\<close> on a well-formed session, by the runs on the board.\<close>

lemma checkForWin_runs:
  assumes "playersXO game" "boardXO (gameboard game)" "square N (gameboard game)"
    "0 < winCase game" "0 < N"
  shows "checkForWin game =
     (if anyRun (gameboard game) N ''X'' (winCase game) \<or>
         anyRun (gameboard game) N ''O'' (winCase game)
      then recordWin (mover game) game
      else Inr (if remainingEmptyCells game = 0 then tieMessage else '''', game))"
proof -
  from cols_win [OF assms] obtain t where t: "transposeGameboard (gameboard game) = Inr t"
    "hasWinner (concatGameboard t) game =
       Inr (colRun (gameboard game) N ''X'' (winCase game) \<or>
            colRun (gameboard game) N ''O'' (winCase game))" by blast
  show ?thesis
    unfolding checkForWin_def Let_def mover_def [symmetric]
      rows_win [OF assms(1-4)] t(1) diagonal_win [OF assms(1-4)] antiDiagonal_win [OF assms(1-4)]
    by (simp add: t(2) anyRun_def split: bool.split)
qed

section \<open>The run detector\<close>

lemma hasRun_short: "length s < K \<Longrightarrow> \<not> hasRun m K s"
  by (auto simp: hasRun_iff)

lemma hasRun_exact: "hasRun m K (pre @ replicate K (Str m) @ suf)"
proof -
  have "(pre @ replicate K (Str m) @ suf) ! (length pre + j) = Str m" if "j < K" for j
    using that by (simp add: nth_append)
  then show ?thesis
    unfolding hasRun_iff by (intro exI [of _ "length pre"]) simp
qed

text \<open>
  Claim C2.  With the players \<open>X\<close> and \<open>O\<close> and a win length \<open>K\<close> of at least 1,
  \<^verbatim>\<open>hasWinner\<close> on the text of a collection of sequences (whose cells are empty or hold
  \<open>X\<close> or \<open>O\<close>) returns true exactly when some sequence has \<open>K\<close> consecutive cells that
  all hold \<open>X\<close>, or \<open>K\<close> consecutive cells that all hold \<open>O\<close>; an empty cell holds
  neither mark, so it ends a run.  When every sequence is shorter than \<open>K\<close> the result
  is false, and a sequence that contains exactly \<open>K\<close> consecutive cells of one mark
  makes it true.
\<close>

theorem hasWinner_detects_runs:
  assumes "playersXO game" "boardXO seqs" "0 < winCase game"
  shows "hasWinner (concatGameboard seqs) game =
           Inr (\<exists>s\<in>set seqs. hasRun ''X'' (winCase game) s \<or> hasRun ''O'' (winCase game) s) \<and>
         (\<forall>m s. hasRun m (winCase game) s \<longleftrightarrow>
            (\<exists>i. i + winCase game \<le> length s \<and> (\<forall>j<winCase game. s ! (i + j) = Str m))) \<and>
         ((\<forall>s\<in>set seqs. length s < winCase game) \<longrightarrow>
            hasWinner (concatGameboard seqs) game = Inr False) \<and>
         (\<forall>m pre suf. (m = ''X'' \<or> m = ''O'') \<and>
             pre @ replicate (winCase game) (Str m) @ suf \<in> set seqs \<longrightarrow>
            hasWinner (concatGameboard seqs) game = Inr True)"
proof (intro conjI allI impI)
  show "hasWinner (concatGameboard seqs) game =
      Inr (\<exists>s\<in>set seqs. hasRun ''X'' (winCase game) s \<or> hasRun ''O'' (winCase game) s)"
    by (rule hasWinner_runs [OF assms])
next
  fix m s
  show "hasRun m (winCase game) s \<longleftrightarrow>
      (\<exists>i. i + winCase game \<le> length s \<and> (\<forall>j<winCase game. s ! (i + j) = Str m))"
    by (rule hasRun_iff)
next
  assume "\<forall>s\<in>set seqs. length s < winCase game"
  then show "hasWinner (concatGameboard seqs) game = Inr False"
    by (simp add: hasWinner_runs [OF assms] hasRun_short)
next
  fix m pre suf
  assume a: "(m = ''X'' \<or> m = ''O'') \<and> pre @ replicate (winCase game) (Str m) @ suf \<in> set seqs"
  have "hasRun m (winCase game) (pre @ replicate (winCase game) (Str m) @ suf)"
    by (rule hasRun_exact)
  with a show "hasWinner (concatGameboard seqs) game = Inr True"
    unfolding hasWinner_runs [OF assms] by blast
qed

theorem hasWinner_detects_runs_witness:
  "playersXO topRowSession \<and>
   boardXO [[Str ''O'', Str ''X'', Str ''X'', Str ''X''], [Str ''O'', Str '''', Str ''O'']] \<and>
   hasWinner (concatGameboard
       [[Str ''O'', Str ''X'', Str ''X'', Str ''X''], [Str ''O'', Str '''', Str ''O'']])
     topRowSession = Inr True \<and>
   hasWinner (concatGameboard [[Str ''O'', Str '''', Str ''O'']]) topRowSession = Inr False \<and>
   hasWinner (concatGameboard [[Str ''X'', Str ''X'']]) topRowSession = Inr False"
proof -
  have p: "playersXO topRowSession" and k: "0 < winCase topRowSession"
    and w: "winCase topRowSession = 3" by code_simp+
  have b1: "boardXO [[Str ''O'', Str ''X'', Str ''X'', Str ''X''], [Str ''O'', Str '''', Str ''O'']]"
    and b2: "boardXO [[Str ''O'', Str '''', Str ''O'']]"
    and b3: "boardXO [[Str ''X'', Str ''X'']]" by code_simp+
  have r: "replicate 3 (Str ''X'') = [Str ''X'', Str ''X'', Str ''X'']" by code_simp
  have n: "\<not> hasRun ''X'' 3 [Str ''O'', Str '''', Str ''O'']"
    "\<not> hasRun ''O'' 3 [Str ''O'', Str '''', Str ''O'']" by code_simp+
  from hasWinner_detects_runs [OF p b1 k]
  have "hasWinner (concatGameboard
       [[Str ''O'', Str ''X'', Str ''X'', Str ''X''], [Str ''O'', Str '''', Str ''O'']])
     topRowSession = Inr True"
    unfolding w
    by (elim conjE allE [of _ "''X''"] allE [of _ "[Str ''O'']"] allE [of _ "[]"])
       (simp add: r)
  moreover from hasWinner_detects_runs [OF p b2 k]
  have "hasWinner (concatGameboard [[Str ''O'', Str '''', Str ''O'']]) topRowSession = Inr False"
    unfolding w using n by simp
  moreover from hasWinner_detects_runs [OF p b3 k]
  have "hasWinner (concatGameboard [[Str ''X'', Str ''X'']]) topRowSession = Inr False"
    unfolding w by simp
  ultimately show ?thesis using p b1 by simp
qed

text \<open>
  Claim C10.  On a grid whose non-empty cells hold \<open>X\<close> or \<open>O\<close>, with the players \<open>X\<close>
  and \<open>O\<close> and a win length of at least 1, the search of \<^verbatim>\<open>hasWinner\<close> in the text built
  by \<^verbatim>\<open>concatGameboard\<close> succeeds exactly when a single row of the grid has \<open>winCase\<close>
  consecutive cells holding the same non-empty mark.  The text is the rows in order,
  each cell as its mark or \<open>E\<close>, each row followed by \<open>B\<close>.
\<close>

theorem concatGameboard_search_finds_row_runs:
  assumes "playersXO game" "boardXO gb" "0 < winCase game"
  shows "hasWinner (concatGameboard gb) game =
           Inr (\<exists>r\<in>set gb. \<exists>i. i + winCase game \<le> length r \<and> truthy (r ! i) \<and>
                              (\<forall>j<winCase game. r ! (i + j) = r ! i)) \<and>
         concatGameboard gb = concat (map (\<lambda>r. concat (map cellMark r) @ ''B'') gb)"
proof
  let ?K = "winCase game"
  have "(hasRun ''X'' ?K r \<or> hasRun ''O'' ?K r) \<longleftrightarrow>
        (\<exists>i. i + ?K \<le> length r \<and> truthy (r ! i) \<and> (\<forall>j<?K. r ! (i + j) = r ! i))"
    (is "?L \<longleftrightarrow> ?R") if r: "r \<in> set gb" for r
  proof
    assume ?L
    then obtain m i where m: "m = ''X'' \<or> m = ''O''"
      and i: "i + ?K \<le> length r" "\<forall>j<?K. r ! (i + j) = Str m"
      by (auto simp: hasRun_iff)
    from i(2) assms(3) have "r ! (i + 0) = Str m" by blast
    then have "r ! i = Str m" by simp
    with m i show ?R by (auto simp: truthy_def)
  next
    assume ?R
    then obtain i where i: "i + ?K \<le> length r" "truthy (r ! i)" "\<forall>j<?K. r ! (i + j) = r ! i"
      by blast
    from i(1) assms(3) have "i < length r" by simp
    with r assms(2) have "marksXO (r ! i)"
      by (simp add: boardXO_def list_all_iff)
    with i(2) have "r ! i = Str ''X'' \<or> r ! i = Str ''O''" by (simp add: marksXO_def)
    with i show ?L unfolding hasRun_iff by metis
  qed
  then show "hasWinner (concatGameboard gb) game =
           Inr (\<exists>r\<in>set gb. \<exists>i. i + ?K \<le> length r \<and> truthy (r ! i) \<and>
                              (\<forall>j<?K. r ! (i + j) = r ! i))"
    by (simp add: hasWinner_runs [OF assms])
  show "concatGameboard gb = concat (map (\<lambda>r. concat (map cellMark r) @ ''B'') gb)"
    by (simp add: concatGameboard_eq rowToStr_eq ROW_BREAK_def)
qed

theorem concatGameboard_search_finds_row_runs_witness:
  "playersXO topRowSession \<and> boardXO [[Str ''O'', Str ''O''], [Str ''O'', Str ''X'']] \<and>
   concatGameboard [[Str ''O'', Str ''O''], [Str ''O'', Str ''X'']] = ''OOBOXB'' \<and>
   hasWinner (concatGameboard [[Str ''O'', Str ''O''], [Str ''O'', Str ''X'']]) topRowSession
     = Inr False"
proof -
  have p: "playersXO topRowSession" and k: "0 < winCase topRowSession"
    and w: "winCase topRowSession = 3" by code_simp+
  have b: "boardXO [[Str ''O'', Str ''O''], [Str ''O'', Str ''X'']]" by code_simp
  have c: "cellMark (Str ''O'') = ''O''" "cellMark (Str ''X'') = ''X''" by code_simp+
  note t = concatGameboard_search_finds_row_runs [OF p b k, unfolded w]
  have a: "hasWinner (concatGameboard [[Str ''O'', Str ''O''], [Str ''O'', Str ''X'']])
      topRowSession = Inr False"
    using t [THEN conjunct1] by simp
  have e: "concatGameboard [[Str ''O'', Str ''O''], [Str ''O'', Str ''X'']] = ''OOBOXB''"
    using t [THEN conjunct2] by (simp add: c)
  show ?thesis using p b a e by blast
qed

section \<open>The outcome of a win check\<close>

lemma recordWin_XO:
  assumes "playersXO game"
  shows "recordWin (mover game) game =
     Inr (winMessage (players game ! mover game),
          game\<lparr>players := (players game)[mover game :=
             (players game ! mover game)\<lparr>totalWins := totalWins (players game ! mover game) + 1\<rparr>]\<rparr>)"
proof -
  from assms obtain p0 p1 where p: "players game = [p0, p1]"
    by (auto simp: playersXO_def)
  show ?thesis
    by (simp add: recordWin_def arrayGet_def p mover_def)
qed

lemma winMessage_neq: "winMessage p \<noteq> ''''" "winMessage p \<noteq> tieMessage"
  by (simp_all add: winMessage_def tieMessage_def)

lemma checkForWin_cases:
  "checkForWin game = recordWin (mover game) game \<or> (\<exists>e. checkForWin game = Inl e) \<or>
   checkForWin game = Inr (if remainingEmptyCells game = 0 then tieMessage else '''', game)"
proof (cases "hasWinner (concatGameboard (gameboard game)) game")
  case (Inl e)
  then show ?thesis by (simp add: checkForWin_def)
next
  case rows: (Inr b1)
  show ?thesis
  proof (cases "b1 \<or> (\<exists>e. transposeGameboard (gameboard game) = Inl e)")
    case True
    with rows show ?thesis by (cases b1) (auto simp: checkForWin_def mover_def)
  next
    case False
    then obtain t where t: "transposeGameboard (gameboard game) = Inr t" and b1: "\<not> b1"
      by (cases "transposeGameboard (gameboard game)") auto
    show ?thesis
    proof (cases "hasWinner (concatGameboard t) game")
      case (Inl e)
      with rows b1 t show ?thesis by (simp add: checkForWin_def)
    next
      case cols: (Inr b2)
      show ?thesis
      proof (cases "hasWinner (concatGameboard (diagonalizeGameboard (gameboard game))) game")
        case (Inl e)
        with rows b1 t cols show ?thesis by (cases b2) (simp_all add: checkForWin_def mover_def)
      next
        case diag: (Inr b3)
        show ?thesis
        proof (cases "hasWinner (concatGameboard (antiDiagonalizeGameboard (gameboard game))) game")
          case (Inl e)
          with rows b1 t cols diag show ?thesis
            by (cases b2; cases b3) (simp_all add: checkForWin_def mover_def)
        next
          case (Inr b4)
          with rows b1 t cols diag show ?thesis
            by (cases b2; cases b3; cases b4) (simp_all add: checkForWin_def mover_def)
        qed
      qed
    qed
  qed
qed




text \<open>
  Claim C7.  On an \<open>N\<close> x \<open>N\<close> session with the players \<open>X\<close> and \<open>O\<close>, the four tests of
  \<^verbatim>\<open>checkForWin\<close> all fail exactly when no line of the board holds a run of \<open>X\<close> or of
  \<open>O\<close>.  In that case the call returns the tie message when the counter of empty cells
  is 0 and the empty message otherwise, in particular when the counter agrees with the
  board and a cell is still empty; the session is left as it was.
\<close>

theorem no_run_gives_tie_or_no_result:
  assumes "playersXO game" "boardXO (gameboard game)" "square N (gameboard game)"
    "0 < winCase game" "0 < N"
  shows "((\<not> anyRun (gameboard game) N ''X'' (winCase game) \<and>
           \<not> anyRun (gameboard game) N ''O'' (winCase game)) \<longleftrightarrow>
          (hasWinner (concatGameboard (gameboard game)) game = Inr False \<and>
           (\<exists>t. transposeGameboard (gameboard game) = Inr t \<and>
                hasWinner (concatGameboard t) game = Inr False) \<and>
           hasWinner (concatGameboard (diagonalizeGameboard (gameboard game))) game = Inr False \<and>
           hasWinner (concatGameboard (antiDiagonalizeGameboard (gameboard game))) game
             = Inr False)) \<and>
         (\<not> anyRun (gameboard game) N ''X'' (winCase game) \<and>
          \<not> anyRun (gameboard game) N ''O'' (winCase game) \<longrightarrow>
            (remainingEmptyCells game = 0 \<longrightarrow> checkForWin game = Inr (tieMessage, game)) \<and>
            (remainingEmptyCells game \<noteq> 0 \<longrightarrow> checkForWin game = Inr ('''', game)) \<and>
            (remainingEmptyCells game = int (emptyCells (gameboard game)) \<and>
             0 < emptyCells (gameboard game) \<longrightarrow> checkForWin game = Inr ('''', game)))"
proof
  from cols_win [OF assms] obtain t where t: "transposeGameboard (gameboard game) = Inr t"
    "hasWinner (concatGameboard t) game =
       Inr (colRun (gameboard game) N ''X'' (winCase game) \<or>
            colRun (gameboard game) N ''O'' (winCase game))" by blast
  show "(\<not> anyRun (gameboard game) N ''X'' (winCase game) \<and>
           \<not> anyRun (gameboard game) N ''O'' (winCase game)) \<longleftrightarrow>
          (hasWinner (concatGameboard (gameboard game)) game = Inr False \<and>
           (\<exists>t. transposeGameboard (gameboard game) = Inr t \<and>
                hasWinner (concatGameboard t) game = Inr False) \<and>
           hasWinner (concatGameboard (diagonalizeGameboard (gameboard game))) game = Inr False \<and>
           hasWinner (concatGameboard (antiDiagonalizeGameboard (gameboard game))) game
             = Inr False)"
    unfolding rows_win [OF assms(1-4)] diagonal_win [OF assms(1-4)]
      antiDiagonal_win [OF assms(1-4)] t(1)
    by (auto simp: t(2) anyRun_def)
  show "\<not> anyRun (gameboard game) N ''X'' (winCase game) \<and>
          \<not> anyRun (gameboard game) N ''O'' (winCase game) \<longrightarrow>
            (remainingEmptyCells game = 0 \<longrightarrow> checkForWin game = Inr (tieMessage, game)) \<and>
            (remainingEmptyCells game \<noteq> 0 \<longrightarrow> checkForWin game = Inr ('''', game)) \<and>
            (remainingEmptyCells game = int (emptyCells (gameboard game)) \<and>
             0 < emptyCells (gameboard game) \<longrightarrow> checkForWin game = Inr ('''', game))"
    by (simp add: checkForWin_runs [OF assms])
qed

theorem no_run_gives_tie_or_no_result_witness:
  "playersXO fullBoardSession \<and> boardXO (gameboard fullBoardSession) \<and>
   square 3 (gameboard fullBoardSession) \<and> remainingEmptyCells fullBoardSession = 0 \<and>
   \<not> anyRun (gameboard fullBoardSession) 3 ''X'' (winCase fullBoardSession) \<and>
   \<not> anyRun (gameboard fullBoardSession) 3 ''O'' (winCase fullBoardSession) \<and>
   checkForWin fullBoardSession = Inr (''The game is tied!'', fullBoardSession) \<and>
   playersXO openSession \<and> boardXO (gameboard openSession) \<and>
   square 3 (gameboard openSession) \<and>
   remainingEmptyCells openSession = int (emptyCells (gameboard openSession)) \<and>
   emptyCells (gameboard openSession) = 7 \<and>
   \<not> anyRun (gameboard openSession) 3 ''X'' (winCase openSession) \<and>
   \<not> anyRun (gameboard openSession) 3 ''O'' (winCase openSession) \<and>
   checkForWin openSession = Inr ('''', openSession)"
proof -
  have h: "playersXO fullBoardSession" "boardXO (gameboard fullBoardSession)"
    "square 3 (gameboard fullBoardSession)" "0 < winCase fullBoardSession" "0 < (3::nat)"
    by code_simp+
  have f: "remainingEmptyCells fullBoardSession = 0"
    "\<not> anyRun (gameboard fullBoardSession) 3 ''X'' (winCase fullBoardSession)"
    "\<not> anyRun (gameboard fullBoardSession) 3 ''O'' (winCase fullBoardSession)"
    by code_simp+
  have h': "playersXO openSession" "boardXO (gameboard openSession)"
    "square 3 (gameboard openSession)" "0 < winCase openSession"
    by code_simp+
  have f': "remainingEmptyCells openSession = int (emptyCells (gameboard openSession))"
    "emptyCells (gameboard openSession) = 7"
    "\<not> anyRun (gameboard openSession) 3 ''X'' (winCase openSession)"
    "\<not> anyRun (gameboard openSession) 3 ''O'' (winCase openSession)"
    by code_simp+
  from no_run_gives_tie_or_no_result [OF h, THEN conjunct2] f
  have a: "checkForWin fullBoardSession = Inr (''The game is tied!'', fullBoardSession)"
    by (simp add: tieMessage_def)
  from no_run_gives_tie_or_no_result [OF h' h(5), THEN conjunct2] f'
  have b: "checkForWin openSession = Inr ('''', openSession)"
    by simp
  from h f a h' f' b show ?thesis by blast
qed

section \<open>Move validation\<close>

lemma messages_distinct:
  "malformedMessage \<noteq> []" "outOfBoundMessage \<noteq> []" "cellTakenMessage \<noteq> []"
  "malformedMessage \<noteq> outOfBoundMessage" "malformedMessage \<noteq> cellTakenMessage"
  "outOfBoundMessage \<noteq> cellTakenMessage"
  by (simp_all add: malformedMessage_def outOfBoundMessage_def cellTakenMessage_def)

lemma validateInputOutOfBound_iff:
  "validateInputOutOfBound input gb = [] \<longleftrightarrow>
     (\<exists>r c. row input = Finite r \<and> col input = Finite c \<and>
            0 \<le> r \<and> r < int (length gb) \<and> 0 \<le> c \<and> c < int (length gb))"
  "validateInputOutOfBound input gb \<noteq> [] \<longleftrightarrow> validateInputOutOfBound input gb = outOfBoundMessage"
  using messages_distinct(2) messages_distinct(2) [symmetric]
  by (auto simp: validateInputOutOfBound_def Let_def numberGreater_def numberLess_def
      split: Number.splits)

lemma validateEmptyCell_in_bound:
  assumes "row input = Finite r" "0 \<le> r" "r < int (length gb)"
  shows "validateEmptyCell input gb =
     Inr (if truthy (cellAtNumber (gb ! nat r) (col input)) then cellTakenMessage else '''')"
  using assms by (simp add: validateEmptyCell_def arrayGetNumber_def arrayGet_def Let_def)

lemma validateInput_out_of_bound:
  assumes "convertRawInputToInput rawInput = (Some input, '''')"
    and "validateInputOutOfBound input gb \<noteq> []"
  shows "validateInput rawInput gb = Inr (Some input, outOfBoundMessage)"
  using assms(2) validateInputOutOfBound_iff(2) [of input gb]
  by (simp add: validateInput_def assms(1) Let_def)

lemma validateInput_in_bound:
  assumes "convertRawInputToInput rawInput = (Some input, '''')"
    and "row input = Finite r" "col input = Finite c"
    and "0 \<le> r" "r < int (length gb)" "0 \<le> c" "c < int (length gb)"
  shows "validateInput rawInput gb =
     Inr (Some input, if truthy (cellAt (gb ! nat r) c) then cellTakenMessage else '''')"
proof -
  have "validateInputOutOfBound input gb = []"
    using assms(2-) by (simp add: validateInputOutOfBound_iff(1))
  then show ?thesis
    using assms(2-)
    by (simp add: validateInput_def assms(1) Let_def validateEmptyCell_in_bound cellAtNumber_def)
qed

lemma convertRawInputToInput_cases:
  "convertRawInputToInput rawInput = (None, malformedMessage) \<and> \<not> inputRegexpTest rawInput \<or>
   (\<exists>input. convertRawInputToInput rawInput = (Some input, '''') \<and> inputRegexpTest rawInput)"
  by (simp add: convertRawInputToInput_def Let_def)

















section \<open>Applying a validated move\<close>

lemma filter_length_update:
  assumes "c < length r" "P (r ! c)" "\<not> P v"
  shows "length (filter P (r[c := v])) + 1 = length (filter P r)"
proof -
  have "r = take c r @ r ! c # drop (Suc c) r"
    using assms(1) by (rule id_take_nth_drop)
  then have "length (filter P r) = length (filter P (take c r @ r ! c # drop (Suc c) r))"
    by simp
  moreover have "r[c := v] = take c r @ v # drop (Suc c) r"
    using assms(1) by (rule upd_conv_take_nth_drop)
  ultimately show ?thesis using assms(2,3) by simp
qed

lemma sum_list_map_update:
  fixes f :: "'a \<Rightarrow> nat"
  assumes "i < length xs"
  shows "sum_list (map f (xs[i := y])) + f (xs ! i) = sum_list (map f xs) + f y"
proof -
  have "xs = take i xs @ xs ! i # drop (Suc i) xs"
    using assms by (rule id_take_nth_drop)
  then have "sum_list (map f xs) = sum_list (map f (take i xs @ xs ! i # drop (Suc i) xs))"
    by simp
  moreover have "xs[i := y] = take i xs @ y # drop (Suc i) xs"
    using assms by (rule upd_conv_take_nth_drop)
  ultimately show ?thesis by simp
qed

lemma emptyCells_update:
  assumes "r < length gb" "c < length (gb ! r)" "\<not> truthy (gb ! r ! c)" "truthy v"
  shows "emptyCells (gb[r := (gb ! r)[c := v]]) + 1 = emptyCells gb"
proof -
  let ?f = "\<lambda>r. length (filter (\<lambda>cell. \<not> truthy cell) r)"
  have "?f ((gb ! r)[c := v]) + 1 = ?f (gb ! r)"
    using assms(2,3,4) by (intro filter_length_update) simp_all
  with sum_list_map_update [OF assms(1), of ?f "(gb ! r)[c := v]"]
  show ?thesis by (simp add: emptyCells_def)
qed

lemma square_update:
  assumes "square N gb" "r < N" "c < N"
  shows "square N (gb[r := (gb ! r)[c := v]])"
  using assms by (auto simp: square_def list_all_length nth_list_update)
text \<open>What a successful validation says about the input.\<close>

lemma validateInput_accepts:
  assumes "validateInput rawInput gb = Inr (Some input, '''')"
  shows "\<exists>r c. row input = Finite (int r) \<and> col input = Finite (int c) \<and>
           r < length gb \<and> c < length gb \<and> \<not> truthy (cellAt (gb ! r) (int c))"
proof -
  from convertRawInputToInput_cases [of rawInput]
  consider "convertRawInputToInput rawInput = (None, malformedMessage)"
    | input' where "convertRawInputToInput rawInput = (Some input', '''')"
    by blast
  then show ?thesis
  proof cases
    case 1
    with assms show ?thesis by (simp add: validateInput_def)
  next
    case 2
    show ?thesis
    proof (cases "validateInputOutOfBound input' gb = []")
      case False
      from validateInput_out_of_bound [OF 2 this] assms messages_distinct(2)
      show ?thesis by simp
    next
      case True
      then obtain r c where rc: "row input' = Finite r" "col input' = Finite c"
        "0 \<le> r" "r < int (length gb)" "0 \<le> c" "c < int (length gb)"
        by (auto simp: validateInputOutOfBound_iff(1))
      from validateInput_in_bound [OF 2 rc] assms messages_distinct(3)
      have i: "input' = input" and e: "\<not> truthy (cellAt (gb ! nat r) c)"
        by (auto split: if_splits)
      from rc have "nat r < length gb" "nat c < length gb" by linarith+
      with rc e have "row input = Finite (int (nat r)) \<and> col input = Finite (int (nat c)) \<and>
           nat r < length gb \<and> nat c < length gb \<and>
           \<not> truthy (cellAt (gb ! nat r) (int (nat c)))"
        by (simp add: i [symmetric])
      then show ?thesis by blast
    qed
  qed
qed

text \<open>
  Claim C6.  In a session that satisfies the invariant (an \<open>N\<close> x \<open>N\<close> board, the players
  \<open>X\<close> and \<open>O\<close>, a turn index of 0 or 1, and a counter equal to the number of empty
  cells), a move that \<^verbatim>\<open>validateInput\<close> accepted names a cell \<open>(r, c)\<close> of the board and is
  applied by \<^verbatim>\<open>updateGame\<close> without an exception: that cell holds the mover's mark
  afterwards (a second validation of the same move finds the cell taken), every other
  cell is unchanged, the counter has decreased by exactly 1, still equals the number of
  empty cells and so is not negative, and the turn has passed to the other player.
  \<^verbatim>\<open>initGame\<close> creates a session in which the counter equals the number of empty cells.
\<close>

theorem updateGame_places_mark_and_counts:
  assumes "validateInput rawInput (gameboard game) = Inr (Some input, '''')"
    and "square N (gameboard game)" and "playersXO game" and "turn game \<le> 1"
    and "remainingEmptyCells game = int (emptyCells (gameboard game))"
  shows "(\<exists>r c game'. row input = Finite (int r) \<and> col input = Finite (int c) \<and>
           r < N \<and> c < N \<and>
           updateGame input game = Inr game' \<and>
           gameboard game' ! r ! c = Str (name (players game ! turn game)) \<and>
           validateEmptyCell input (gameboard game') = Inr cellTakenMessage \<and>
           (\<forall>r' c'. r' < N \<and> c' < N \<and> (r' \<noteq> r \<or> c' \<noteq> c) \<longrightarrow>
              gameboard game' ! r' ! c' = gameboard game ! r' ! c') \<and>
           square N (gameboard game') \<and>
           remainingEmptyCells game' = remainingEmptyCells game - 1 \<and>
           remainingEmptyCells game' = int (emptyCells (gameboard game')) \<and>
           0 \<le> remainingEmptyCells game' \<and>
           turn game' = 1 - turn game \<and> players game' = players game \<and>
           winCase game' = winCase game) \<and>
         remainingEmptyCells (initGame gameType)
           = int (emptyCells (gameboard (initGame gameType)))"
proof
  let ?gb = "gameboard game"
  let ?m = "name (players game ! turn game)"
  have len: "length ?gb = N" using assms(2) by (simp add: square_def)
  from validateInput_accepts [OF assms(1)] obtain r c
    where i: "row input = Finite (int r)" "col input = Finite (int c)"
      and rc: "r < N" "c < N" and e: "\<not> truthy (cellAt (?gb ! r) (int c))"
    by (auto simp: len)
  have lr: "length (?gb ! r) = N" by (rule square_nth [OF assms(2) rc(1)])
  have ce: "cellAt (?gb ! r) (int c) = ?gb ! r ! c"
    by (rule cellAt_square [OF assms(2) rc])
  from assms(3) obtain p0 p1 where p: "players game = [p0, p1]" "name p0 = ''X''" "name p1 = ''O''"
    by (auto simp: playersXO_def)
  have m: "?m \<noteq> []" using assms(4) p by (cases "turn game") auto
  let ?row' = "(?gb ! r)[c := Str ?m]"
  let ?gb' = "?gb[r := ?row']"
  let ?game' = "game\<lparr>gameboard := ?gb', remainingEmptyCells := remainingEmptyCells game - 1,
                     turn := (if turn game = 0 then 1 else 0)\<rparr>"
  have g1: "arrayGet ?gb (int r) = Some (?gb ! r)"
    using rc by (simp add: arrayGet_def len)
  have g2: "arrayGet (players game) (int (turn game)) = Some (players game ! turn game)"
    using assms(4) by (simp add: arrayGet_def p)
  have s: "arraySetNumber (?gb ! r) (col input) (Str ?m) = ?row'"
    using rc by (simp add: arraySetNumber_def arraySet_def lr i)
  have u: "updateGame input game = Inr ?game'"
    by (simp add: updateGame_def i g1 g2 s [unfolded i])
  have cell: "?gb' ! r ! c = Str ?m"
    using rc by (simp add: len lr)
  have sq': "square N ?gb'" by (rule square_update [OF assms(2) rc])
  have taken: "validateEmptyCell input ?gb' = Inr cellTakenMessage"
  proof -
    have "cellAt (?gb' ! r) (int c) = ?gb' ! r ! c"
      by (rule cellAt_square [OF sq' rc])
    with cell m show ?thesis
      using rc
      by (simp add: validateEmptyCell_def arrayGetNumber_def cellAtNumber_def i arrayGet_def len
          truthy_def Let_def)
  qed
  have others: "\<forall>r' c'. r' < N \<and> c' < N \<and> (r' \<noteq> r \<or> c' \<noteq> c) \<longrightarrow>
      ?gb' ! r' ! c' = ?gb ! r' ! c'"
    using rc by (auto simp: nth_list_update len)
  have "emptyCells ?gb' + 1 = emptyCells ?gb"
    using rc e m by (intro emptyCells_update) (simp_all add: len lr ce [symmetric] truthy_def)
  then have cnt: "remainingEmptyCells game - 1 = int (emptyCells ?gb')"
    using assms(5) by simp
  have tn: "(if turn game = 0 then 1 else 0) = 1 - turn game"
    using assms(4) by auto
  show "\<exists>r c game'. row input = Finite (int r) \<and> col input = Finite (int c) \<and>
           r < N \<and> c < N \<and>
           updateGame input game = Inr game' \<and>
           gameboard game' ! r ! c = Str ?m \<and>
           validateEmptyCell input (gameboard game') = Inr cellTakenMessage \<and>
           (\<forall>r' c'. r' < N \<and> c' < N \<and> (r' \<noteq> r \<or> c' \<noteq> c) \<longrightarrow>
              gameboard game' ! r' ! c' = gameboard game ! r' ! c') \<and>
           square N (gameboard game') \<and>
           remainingEmptyCells game' = remainingEmptyCells game - 1 \<and>
           remainingEmptyCells game' = int (emptyCells (gameboard game')) \<and>
           0 \<le> remainingEmptyCells game' \<and>
           turn game' = 1 - turn game \<and> players game' = players game \<and>
           winCase game' = winCase game"
  proof (rule exI [of _ r], rule exI [of _ c], rule exI [of _ ?game'], intro conjI)
    show "row input = Finite (int r)" "col input = Finite (int c)" by (rule i)+
    show "r < N" "c < N" by (rule rc)+
    show "updateGame input game = Inr ?game'" by (rule u)
    show "gameboard ?game' ! r ! c = Str ?m" using cell by simp
    show "validateEmptyCell input (gameboard ?game') = Inr cellTakenMessage" using taken by simp
    show "\<forall>r' c'. r' < N \<and> c' < N \<and> (r' \<noteq> r \<or> c' \<noteq> c) \<longrightarrow>
              gameboard ?game' ! r' ! c' = gameboard game ! r' ! c'" using others by simp
    show "square N (gameboard ?game')" using sq' by simp
    show "remainingEmptyCells ?game' = remainingEmptyCells game - 1" by simp
    show "remainingEmptyCells ?game' = int (emptyCells (gameboard ?game'))" using cnt by simp
    show "0 \<le> remainingEmptyCells ?game'" using cnt by simp
    show "turn ?game' = 1 - turn game" using tn by simp
    show "players ?game' = players game" by simp
    show "winCase ?game' = winCase game" by simp
  qed
next
  have e: "emptyCells (replicate n (replicate n (Str ''''))) = n * n" for n
    by (simp add: emptyCells_def truthy_def sum_list_replicate)
  show "remainingEmptyCells (initGame gameType)
           = int (emptyCells (gameboard (initGame gameType)))"
    by (simp add: initGame_def initGameboard_eq e)
qed

theorem updateGame_places_mark_and_counts_witness:
  "validateInput (codeUnits ''0,1'') (gameboard openSession)
     = Inr (Some \<lparr>row = Finite 0, col = Finite 1\<rparr>, '''') \<and>
   square 3 (gameboard openSession) \<and> playersXO openSession \<and> turn openSession \<le> 1 \<and>
   remainingEmptyCells openSession = int (emptyCells (gameboard openSession)) \<and>
   (\<exists>game'. updateGame \<lparr>row = Finite 0, col = Finite 1\<rparr> openSession = Inr game' \<and>
      gameboard game' ! 0 ! 1 = Str ''X'' \<and>
      remainingEmptyCells game' = 6 \<and>
      remainingEmptyCells game' = int (emptyCells (gameboard game')) \<and>
      turn game' = 1)"
proof -
  have h: "validateInput (codeUnits ''0,1'') (gameboard openSession)
       = Inr (Some \<lparr>row = Finite 0, col = Finite 1\<rparr>, '''')"
    "square 3 (gameboard openSession)" "playersXO openSession" "turn openSession \<le> 1"
    "remainingEmptyCells openSession = int (emptyCells (gameboard openSession))"
    by code_simp+
  have f: "name (players openSession ! 0) = ''X''"
    "remainingEmptyCells openSession = 7" "turn openSession = 0" by code_simp+
  from updateGame_places_mark_and_counts [OF h, THEN conjunct1]
  have "\<exists>game'. updateGame \<lparr>row = Finite 0, col = Finite 1\<rparr> openSession = Inr game' \<and>
      gameboard game' ! 0 ! 1 = Str ''X'' \<and>
      remainingEmptyCells game' = 6 \<and>
      remainingEmptyCells game' = int (emptyCells (gameboard game')) \<and>
      turn game' = 1"
    by (auto simp: f)
  with h show ?thesis by blast
qed

section \<open>States reached in play\<close>

text \<open>The pattern for a win length of 0 matches every text.\<close>

lemma hasWinner_winCase_zero:
  assumes "playersXO game" "winCase game = 0"
  shows "hasWinner s game = Inr True"
  using assms(2) by (cases s) (simp_all add: hasWinner_XO [OF assms(1)])

lemma anyRun_kept_cells:
  assumes k: "\<And>r c. r < N \<Longrightarrow> c < N \<Longrightarrow> gb' ! r ! c = Str m \<Longrightarrow> gb ! r ! c = Str m"
    and run: "anyRun gb' N m K"
  shows "anyRun gb N m K"
proof -
  have row: "rowRun gb N m K" if "rowRun gb' N m K"
  proof -
    from that obtain r c where rc: "r < N" "c + K \<le> N" "\<forall>j<K. gb' ! r ! (c + j) = Str m"
      unfolding rowRun_iff by blast
    have "gb ! r ! (c + j) = Str m" if "j < K" for j
      using rc that by (intro k) simp_all
    with rc show ?thesis unfolding rowRun_iff by blast
  qed
  have col: "colRun gb N m K" if "colRun gb' N m K"
  proof -
    from that obtain r c where rc: "c < N" "r + K \<le> N" "\<forall>j<K. gb' ! (r + j) ! c = Str m"
      unfolding colRun_iff by blast
    have "gb ! (r + j) ! c = Str m" if "j < K" for j
      using rc that by (intro k) simp_all
    with rc show ?thesis unfolding colRun_iff by blast
  qed
  have dl: "downLeftRun gb N m K" if "downLeftRun gb' N m K"
  proof -
    from that obtain r c where rc: "r + K \<le> N" "K - 1 \<le> c" "c < N"
      "\<forall>j<K. gb' ! (r + j) ! (c - j) = Str m"
      unfolding downLeftRun_iff by blast
    have "gb ! (r + j) ! (c - j) = Str m" if "j < K" for j
      using rc that by (intro k) simp_all
    with rc show ?thesis unfolding downLeftRun_iff by blast
  qed
  have dr: "downRightRun gb N m K" if "downRightRun gb' N m K"
  proof -
    from that obtain r c where rc: "r + K \<le> N" "c + K \<le> N"
      "\<forall>j<K. gb' ! (r + j) ! (c + j) = Str m"
      unfolding downRightRun_iff by blast
    have "gb ! (r + j) ! (c + j) = Str m" if "j < K" for j
      using rc that by (intro k) simp_all
    with rc show ?thesis unfolding downRightRun_iff by blast
  qed
  from run row col dl dr show ?thesis unfolding anyRun_def by blast
qed
lemma anyRun_cell:
  assumes "0 < K" "anyRun gb N m K"
  shows "\<exists>r c. r < N \<and> c < N \<and> gb ! r ! c = Str m"
proof -
  from assms(2) consider "rowRun gb N m K" | "colRun gb N m K" | "downLeftRun gb N m K"
    | "downRightRun gb N m K" unfolding anyRun_def by blast
  then show ?thesis
  proof cases
    case 1
    then obtain r c where rc: "r < N" "c + K \<le> N" "\<forall>j<K. gb ! r ! (c + j) = Str m"
      unfolding rowRun_iff by blast
    from rc(3) assms(1) have "gb ! r ! (c + 0) = Str m" by blast
    moreover have "c < N" using rc(2) assms(1) by simp
    ultimately show ?thesis using rc(1) by auto
  next
    case 2
    then obtain r c where rc: "c < N" "r + K \<le> N" "\<forall>j<K. gb ! (r + j) ! c = Str m"
      unfolding colRun_iff by blast
    from rc(3) assms(1) have "gb ! (r + 0) ! c = Str m" by blast
    moreover have "r < N" using rc(2) assms(1) by simp
    ultimately show ?thesis using rc(1) by auto
  next
    case 3
    then obtain r c where rc: "r + K \<le> N" "K - 1 \<le> c" "c < N"
      "\<forall>j<K. gb ! (r + j) ! (c - j) = Str m"
      unfolding downLeftRun_iff by blast
    from rc(4) assms(1) have "gb ! (r + 0) ! (c - 0) = Str m" by blast
    moreover have "r < N" using rc(1) assms(1) by simp
    ultimately show ?thesis using rc(3) by auto
  next
    case 4
    then obtain r c where rc: "r + K \<le> N" "c + K \<le> N"
      "\<forall>j<K. gb ! (r + j) ! (c + j) = Str m"
      unfolding downRightRun_iff by blast
    from rc(3) assms(1) have "gb ! (r + 0) ! (c + 0) = Str m" by blast
    moreover have "r < N" "c < N" using rc(1,2) assms(1) by simp_all
    ultimately show ?thesis by auto
  qed
qed

lemma updateGame_validated:
  assumes "validateInput rawInput (gameboard game) = Inr (Some input, '''')"
    and "square N (gameboard game)" and "playersXO game" and "turn game \<le> 1"
  shows "\<exists>r c. r < N \<and> c < N \<and> \<not> truthy (gameboard game ! r ! c) \<and>
     updateGame input game =
       Inr (game\<lparr>gameboard := (gameboard game)[r :=
                    (gameboard game ! r)[c := Str (name (players game ! turn game))]],
                  remainingEmptyCells := remainingEmptyCells game - 1,
                  turn := 1 - turn game\<rparr>)"
proof -
  let ?gb = "gameboard game"
  have len: "length ?gb = N" using assms(2) by (simp add: square_def)
  from validateInput_accepts [OF assms(1)] obtain r c
    where i: "row input = Finite (int r)" "col input = Finite (int c)"
      and rc: "r < N" "c < N" and e: "\<not> truthy (cellAt (?gb ! r) (int c))"
    by (auto simp: len)
  from assms(3) obtain p0 p1 where p: "players game = [p0, p1]"
    by (auto simp: playersXO_def)
  have "(if turn game = 0 then 1 else 0) = 1 - turn game" using assms(4) by auto
  then have "updateGame input game =
       Inr (game\<lparr>gameboard := ?gb[r := (?gb ! r)[c := Str (name (players game ! turn game))]],
                  remainingEmptyCells := remainingEmptyCells game - 1,
                  turn := 1 - turn game\<rparr>)"
    using rc assms(4) square_nth [OF assms(2) rc(1)]
    by (simp add: updateGame_def i arrayGet_def arraySetNumber_def arraySet_def len p)
  moreover have "\<not> truthy (?gb ! r ! c)"
    using e cellAt_square [OF assms(2) rc] by simp
  ultimately show ?thesis using rc by blast
qed

text \<open>
  In play \<^verbatim>\<open>checkForWin\<close> is called after every move and the game ends at the first win,
  so a move starts from a board without a run.  The state that \<^verbatim>\<open>checkForWin\<close> then
  receives is well formed and has no run of the mark of the player who did not move:
  every run on the new board is of the mark of the player who moved.
\<close>

lemma state_after_move:
  assumes "awaitingMove N K game"
    and "validateInput rawInput (gameboard game) = Inr (Some input, '''')"
    and "updateGame input game = Inr game'"
  shows "playersXO game' \<and> square N (gameboard game') \<and> boardXO (gameboard game') \<and>
         winCase game' = K \<and> turn game' \<le> 1 \<and> mover game' = 1 - turn game' \<and>
         (name (players game' ! mover game') = ''X'' \<or>
          name (players game' ! mover game') = ''O'') \<and>
         name (players game' ! (1 - mover game')) \<noteq> name (players game' ! mover game') \<and>
         (name (players game' ! (1 - mover game')) = ''X'' \<or>
          name (players game' ! (1 - mover game')) = ''O'') \<and>
         \<not> anyRun (gameboard game') N (name (players game' ! (1 - mover game'))) K"
proof -
  let ?gb = "gameboard game"
  let ?m = "name (players game ! turn game)"
  let ?o = "name (players game ! (1 - turn game))"
  from assms(1) have a: "playersXO game" "square N ?gb" "boardXO ?gb" "winCase game = K"
    "turn game \<le> 1" "\<not> anyRun ?gb N ''X'' K" "\<not> anyRun ?gb N ''O'' K"
    by (simp_all add: awaitingMove_def)
  from updateGame_validated [OF assms(2) a(2,1,5)] assms(3) obtain r c
    where rc: "r < N" "c < N"
      and g': "game' = game\<lparr>gameboard := ?gb[r := (?gb ! r)[c := Str ?m]],
                  remainingEmptyCells := remainingEmptyCells game - 1,
                  turn := 1 - turn game\<rparr>" by auto
  have len: "length ?gb = N" using a(2) by (simp add: square_def)
  from a(1) obtain p0 p1 where p: "players game = [p0, p1]" "name p0 = ''X''" "name p1 = ''O''"
    by (auto simp: playersXO_def)
  have mo: "?m \<noteq> ?o" "?o = ''X'' \<or> ?o = ''O''" "?m = ''X'' \<or> ?m = ''O''"
    using a(5) p by (cases "turn game"; simp)+
  have mv: "mover game' = turn game" "turn game' \<le> 1" "mover game' = 1 - turn game'"
    using a(5) by (auto simp: g' mover_def)
  have pl: "players game' = players game" "winCase game' = K" by (simp_all add: g' a(4))
  have sq: "square N (gameboard game')"
    using square_update [OF a(2) rc] by (simp add: g')
  have bx: "boardXO (gameboard game')"
  proof -
    have m: "marksXO (Str ?m)" using mo(3) by (auto simp: marksXO_def)
    have o: "\<forall>n<length (?gb ! r). marksXO (?gb ! r ! n)"
      using a(3) rc(1) by (simp add: boardXO_def list_all_length len)
    have row': "list_all marksXO ((?gb ! r)[c := Str ?m])"
      unfolding list_all_length
    proof (intro allI impI)
      fix n assume n: "n < length ((?gb ! r)[c := Str ?m])"
      show "marksXO ((?gb ! r)[c := Str ?m] ! n)"
      proof (cases "n = c")
        case True
        with n m show ?thesis by simp
      next
        case False
        with n o show ?thesis by simp
      qed
    qed
    have "\<forall>n<length (gameboard game'). list_all marksXO (gameboard game' ! n)"
    proof (intro allI impI)
      fix n assume n: "n < length (gameboard game')"
      have old: "list_all marksXO (?gb ! n)"
        using n a(3) by (simp add: g' boardXO_def list_all_length [of _ ?gb])
      show "list_all marksXO (gameboard game' ! n)"
      proof (cases "n = r")
        case True
        with n row' show ?thesis by (simp add: g')
      next
        case False
        with n old show ?thesis by (simp add: g')
      qed
    qed
    then show ?thesis by (simp add: boardXO_def list_all_length [of _ "gameboard game'"])
  qed
  have "\<not> anyRun (gameboard game') N ?o K"
  proof
    assume r: "anyRun (gameboard game') N ?o K"
    have "anyRun ?gb N ?o K"
    proof (rule anyRun_kept_cells [OF _ r])
      fix r' c' assume h: "r' < N" "c' < N" "gameboard game' ! r' ! c' = Str ?o"
      show "?gb ! r' ! c' = Str ?o"
      proof (cases "r' = r \<and> c' = c")
        case True
        with h rc square_nth [OF a(2) rc(1)] have "Str ?m = Str ?o"
          by (simp add: g' len)
        with mo(1) show ?thesis by simp
      next
        case False
        with h rc show ?thesis by (auto simp: g' len nth_list_update split: if_splits)
      qed
    qed
    with mo(2) a(6,7) show False by auto
  qed
  with mv pl mo a(1) sq bx show ?thesis
    by (simp add: playersXO_def)
qed

lemma newSession_awaitingMove:
  assumes "0 < K"
  shows "awaitingMove N K (newSession gameType N K)"
proof -
  let ?gb = "replicate N (replicate N (Str ''''))"
  have "\<not> anyRun ?gb N m K" if "m \<noteq> []" for m
  proof
    assume "anyRun ?gb N m K"
    from anyRun_cell [OF assms this] obtain r c where "r < N" "c < N" "?gb ! r ! c = Str m"
      by blast
    with that show False by simp
  qed
  then have "\<not> anyRun ?gb N ''X'' K" "\<not> anyRun ?gb N ''O'' K" by simp_all
  then show ?thesis
    by (simp add: awaitingMove_def newSession_def initGameboard_eq square_replicate
        playersXO_def initPlayers_def boardXO_def marksXO_def truthy_def list_all_iff)
qed

lemma promptForInput_awaitingMove:
  assumes "0 < N" "0 < K"
  shows "awaitingMove N K game \<Longrightarrow> promptForInput game lines = Inr ('''', game1) \<Longrightarrow>
         awaitingMove N K game1"
proof (induction lines arbitrary: game)
  case Nil
  then show ?case by (simp split: option.splits)
next
  case (Cons rawInput lines)
  note aw = Cons.prems(1)
  from Cons.prems(2) obtain currentPlayer
    where cp: "arrayGet (players game) (int (turn game)) = Some currentPlayer"
    by (cases "arrayGet (players game) (int (turn game))") simp_all
  note run = Cons.prems(2) [simplified promptForInput.simps cp option.case]
  show ?case
  proof (cases "validateInput rawInput (gameboard game)")
    case (Inl e)
    with run show ?thesis by simp
  next
    case (Inr res)
    obtain inp err where res: "res = (inp, err)" by (cases res)
    show ?thesis
    proof (cases "\<exists>input. inp = Some input \<and> err = []")
      case False
      with run Inr res have "promptForInput game lines = Inr ('''', game1)"
        by (cases inp) (auto split: if_splits)
      with aw show ?thesis by (rule Cons.IH)
    next
      case True
      then obtain input where v: "validateInput rawInput (gameboard game) = Inr (Some input, '''')"
        using Inr res by auto
      show ?thesis
      proof (cases "updateGame input game")
        case (Inl e)
        with run v show ?thesis by simp
      next
        case u: (Inr updated)
        note st = state_after_move [OF aw v u]
        from st have wf: "playersXO updated" "boardXO (gameboard updated)"
          "square N (gameboard updated)" "0 < winCase updated"
          using assms(2) by simp_all
        note cw = checkForWin_runs [OF wf assms(1)]
        from st have k: "winCase updated = K" by simp
        show ?thesis
        proof (cases "anyRun (gameboard updated) N ''X'' K \<or> anyRun (gameboard updated) N ''O'' K")
          case True
          then have "checkForWin updated = recordWin (mover updated) updated"
            by (simp add: cw k)
          with run v u winMessage_neq(1) [of "players updated ! mover updated"]
          show ?thesis by (simp add: recordWin_XO [OF wf(1)])
        next
          case False
          then have c: "checkForWin updated =
              Inr (if remainingEmptyCells updated = 0 then tieMessage else '''', updated)"
            by (simp add: cw k)
          show ?thesis
          proof (cases "remainingEmptyCells updated = 0")
            case True
            with run v u c show ?thesis by (simp add: tieMessage_def)
          next
            case nz: False
            with run v u c have "promptForInput updated lines = Inr ('''', game1)" by simp
            moreover have "awaitingMove N K updated"
              using st False by (simp add: awaitingMove_def)
            ultimately show ?thesis by (rule Cons.IH [rotated])
          qed
        qed
      qed
    qed
  qed
qed

lemma initGame_newSession:
  "initGame gameType =
     (if gameType = TIC_TAC_TOE then newSession gameType 3 3 else newSession gameType 10 5)"
  by (simp add: initGame_def newSession_def)

lemma play_state:
  assumes "1 \<le> N" "1 \<le> K"
    and "promptForInput (newSession gameType N K) lines = Inr ('''', game)"
    and "validateInput rawInput (gameboard game) = Inr (Some input, '''')"
    and "updateGame input game = Inr game'"
  shows "playersXO game'" "square N (gameboard game')" "boardXO (gameboard game')"
    "winCase game' = K" "turn game' \<le> 1" "mover game' = 1 - turn game'"
    "mover game' = turn game"
    "name (players game' ! mover game') = ''X'' \<or> name (players game' ! mover game') = ''O''"
    "name (players game' ! (1 - mover game')) \<noteq> name (players game' ! mover game')"
    "name (players game' ! (1 - mover game')) = ''X'' \<or>
     name (players game' ! (1 - mover game')) = ''O''"
    "\<not> anyRun (gameboard game') N (name (players game' ! (1 - mover game'))) K"
    "checkForWin game' =
       (if anyRun (gameboard game') N (name (players game' ! mover game')) K
        then Inr (winMessage (players game' ! mover game'),
                  game'\<lparr>players := (players game')[mover game' :=
                     (players game' ! mover game')
                       \<lparr>totalWins := totalWins (players game' ! mover game') + 1\<rparr>]\<rparr>)
        else Inr (if remainingEmptyCells game' = 0 then tieMessage else '''', game'))"
proof -
  have NK: "0 < N" "0 < K" using assms(1,2) by simp_all
  have aw: "awaitingMove N K game"
    by (rule promptForInput_awaitingMove [OF NK newSession_awaitingMove [OF NK(2)] assms(3)])
  note st = state_after_move [OF aw assms(4,5)]
  from st show a: "playersXO game'" "square N (gameboard game')" "boardXO (gameboard game')"
    "winCase game' = K" "turn game' \<le> 1" "mover game' = 1 - turn game'"
    and b: "name (players game' ! mover game') = ''X'' \<or> name (players game' ! mover game') = ''O''"
    "name (players game' ! (1 - mover game')) \<noteq> name (players game' ! mover game')"
    "name (players game' ! (1 - mover game')) = ''X'' \<or>
     name (players game' ! (1 - mover game')) = ''O''"
    "\<not> anyRun (gameboard game') N (name (players game' ! (1 - mover game'))) K"
    by blast+
  from aw have t: "turn game \<le> 1" by (simp add: awaitingMove_def)
  have "turn game' = (if turn game = 0 then 1 else 0)"
    using assms(5) by (auto simp: updateGame_def split: Number.splits option.splits)
  with t show "mover game' = turn game" by (auto simp: mover_def)
  have k: "0 < winCase game'" using a(4) NK(2) by simp
  have "anyRun (gameboard game') N ''X'' K \<or> anyRun (gameboard game') N ''O'' K \<longleftrightarrow>
        anyRun (gameboard game') N (name (players game' ! mover game')) K"
    using b by auto
  then show "checkForWin game' =
       (if anyRun (gameboard game') N (name (players game' ! mover game')) K
        then Inr (winMessage (players game' ! mover game'),
                  game'\<lparr>players := (players game')[mover game' :=
                     (players game' ! mover game')
                       \<lparr>totalWins := totalWins (players game' ! mover game') + 1\<rparr>]\<rparr>)
        else Inr (if remainingEmptyCells game' = 0 then tieMessage else '''', game'))"
    unfolding checkForWin_runs [OF a(1,3,2) k NK(1)] a(4) recordWin_XO [OF a(1)]
    by simp
qed

lemma run_mark:
  assumes "boardXO gb" "square N gb" "0 < K" "anyRun gb N m K" "m \<noteq> ''''"
  shows "m = ''X'' \<or> m = ''O''"
proof -
  from anyRun_cell [OF assms(3,4)] obtain r c where "r < N" "c < N" "gb ! r ! c = Str m"
    by blast
  with marksXO_cell [OF assms(1,2), of r c] assms(5) show ?thesis
    by (simp add: marksXO_def truthy_def)
qed

lemma linearizationTest_runs:
  assumes "playersXO game" "boardXO (gameboard game)" "square N (gameboard game)"
    "0 < winCase game" "0 < N"
  shows "linearizationTest game l =
     Inr (linearizationRun l (gameboard game) N ''X'' (winCase game) \<or>
          linearizationRun l (gameboard game) N ''O'' (winCase game))"
proof (cases l)
  case Rows
  then show ?thesis
    by (simp add: linearizationTest_def linearizationRun_def rows_win [OF assms(1-4)])
next
  case Columns
  from cols_win [OF assms] obtain t where t: "transposeGameboard (gameboard game) = Inr t"
    "hasWinner (concatGameboard t) game =
       Inr (colRun (gameboard game) N ''X'' (winCase game) \<or>
            colRun (gameboard game) N ''O'' (winCase game))" by blast
  with Columns show ?thesis
    by (simp add: linearizationTest_def linearizationRun_def)
next
  case Diagonals
  then show ?thesis
    by (simp add: linearizationTest_def linearizationRun_def diagonal_win [OF assms(1-4)])
next
  case AntiDiagonals
  then show ?thesis
    by (simp add: linearizationTest_def linearizationRun_def antiDiagonal_win [OF assms(1-4)])
qed

lemma linearizationRun_anyRun: "linearizationRun l gb N m K \<Longrightarrow> anyRun gb N m K"
  by (cases l) (simp_all add: linearizationRun_def anyRun_def)

text \<open>
  Claim C1.  Take any board size \<open>N\<close> and win length \<open>K\<close>, both at least 1, and any
  state \<^verbatim>\<open>checkForWin\<close> receives in play: a session is created, lines are typed at the
  prompt until it waits with the session \<open>game\<close>, and one more line is accepted and
  applied, giving \<open>game'\<close>.  If \<open>K\<close> contiguous cells of \<open>game'\<close> along a row, a column
  or either diagonal direction hold one non-empty mark, then that mark is the mark of
  the player who just moved and \<^verbatim>\<open>checkForWin\<close> returns the win message for that mark,
  counting one win for that player.  If no line holds \<open>K\<close> contiguous cells of
  \<open>X\<close> or of \<open>O\<close> (every sequence of one mark is shorter than \<open>K\<close>), \<^verbatim>\<open>checkForWin\<close>
  returns no win: the tie message on a full board and the empty message otherwise; and
  every win message it returns names a mark that has a run of \<open>K\<close> on the board.
  (\<^verbatim>\<open>initGame\<close> creates \<open>newSession\<close> with \<open>N = K = 3\<close> or with \<open>N = 10\<close> and
  \<open>K = 5\<close>, lemma \<open>initGame_newSession\<close>.)
\<close>

theorem run_in_play_wins_for_its_mark:
  assumes "1 \<le> N" "1 \<le> K"
    and "promptForInput (newSession gameType N K) lines = Inr ('''', game)"
    and "validateInput rawInput (gameboard game) = Inr (Some input, '''')"
    and "updateGame input game = Inr game'"
  shows "(\<forall>m. m \<noteq> '''' \<and> anyRun (gameboard game') N m K \<longrightarrow>
            m = name (players game' ! mover game') \<and>
            checkForWin game' =
              Inr (''Player '' @ m @ '' wins!'',
                   game'\<lparr>players := (players game')[mover game' :=
                      (players game' ! mover game')
                        \<lparr>totalWins := totalWins (players game' ! mover game') + 1\<rparr>]\<rparr>)) \<and>
         (\<not> anyRun (gameboard game') N ''X'' K \<and> \<not> anyRun (gameboard game') N ''O'' K \<longrightarrow>
            checkForWin game' =
              Inr (if remainingEmptyCells game' = 0 then tieMessage else '''', game')) \<and>
         (\<forall>msg game''. checkForWin game' = Inr (msg, game'') \<and> msg \<noteq> '''' \<and>
              msg \<noteq> tieMessage \<longrightarrow>
            (\<exists>m. m \<noteq> '''' \<and> anyRun (gameboard game') N m K \<and>
                 msg = ''Player '' @ m @ '' wins!''))"
proof -
  note st = play_state [OF assms]
  let ?mv = "name (players game' ! mover game')"
  have K: "0 < K" using assms(2) by simp
  have mv: "?mv \<noteq> ''''" using st(8) by auto
  show ?thesis
  proof (intro conjI allI impI)
    fix m assume m: "m \<noteq> '''' \<and> anyRun (gameboard game') N m K"
    from run_mark [OF st(3,2) K] m have "m = ''X'' \<or> m = ''O''" by blast
    moreover from m st(11) have "m \<noteq> name (players game' ! (1 - mover game'))" by auto
    ultimately show e: "m = ?mv" using st(8,9,10) by auto
    with m show "checkForWin game' =
              Inr (''Player '' @ m @ '' wins!'',
                   game'\<lparr>players := (players game')[mover game' :=
                      (players game' ! mover game')
                        \<lparr>totalWins := totalWins (players game' ! mover game') + 1\<rparr>]\<rparr>)"
      by (simp add: st(12) winMessage_def)
  next
    assume "\<not> anyRun (gameboard game') N ''X'' K \<and> \<not> anyRun (gameboard game') N ''O'' K"
    with st(8) have "\<not> anyRun (gameboard game') N ?mv K" by auto
    then show "checkForWin game' =
              Inr (if remainingEmptyCells game' = 0 then tieMessage else '''', game')"
      by (simp add: st(12))
  next
    fix msg game''
    assume h: "checkForWin game' = Inr (msg, game'') \<and> msg \<noteq> '''' \<and> msg \<noteq> tieMessage"
    then have "anyRun (gameboard game') N ?mv K \<and> msg = winMessage (players game' ! mover game')"
      by (auto simp: st(12) split: if_splits)
    with mv show "\<exists>m. m \<noteq> '''' \<and> anyRun (gameboard game') N m K \<and>
                 msg = ''Player '' @ m @ '' wins!''"
      by (auto simp: winMessage_def)
  qed
qed

theorem run_in_play_wins_for_its_mark_witness:
  "1 \<le> (3::nat) \<and>
   promptForInput (newSession ''tic-tac-toe'' 3 3)
     [codeUnits ''0,0'', codeUnits ''1,1'', codeUnits ''0,1'', codeUnits ''1,0''] =
     Inr ('''', fourMovesSession) \<and>
   validateInput (codeUnits ''0,2'') (gameboard fourMovesSession) =
     Inr (Some \<lparr>row = Finite 0, col = Finite 2\<rparr>, '''') \<and>
   updateGame \<lparr>row = Finite 0, col = Finite 2\<rparr> fourMovesSession = Inr topRowSession \<and>
   anyRun (gameboard topRowSession) 3 ''X'' 3 \<and>
   checkForWin topRowSession =
     Inr (''Player X wins!'',
          topRowSession\<lparr>players := [\<lparr>name = ''X'', totalWins = 1\<rparr>,
                                     \<lparr>name = ''O'', totalWins = 0\<rparr>]\<rparr>)"
proof -
  have h: "1 \<le> (3::nat)"
    "promptForInput (newSession ''tic-tac-toe'' 3 3)
       [codeUnits ''0,0'', codeUnits ''1,1'', codeUnits ''0,1'', codeUnits ''1,0''] =
       Inr ('''', fourMovesSession)"
    "validateInput (codeUnits ''0,2'') (gameboard fourMovesSession) =
       Inr (Some \<lparr>row = Finite 0, col = Finite 2\<rparr>, '''')"
    "updateGame \<lparr>row = Finite 0, col = Finite 2\<rparr> fourMovesSession = Inr topRowSession"
    by code_simp+
  have r: "''X'' \<noteq> '''' \<and> anyRun (gameboard topRowSession) 3 ''X'' 3" by code_simp
  have f: "mover topRowSession = 0" "players topRowSession ! 0 = \<lparr>name = ''X'', totalWins = 0\<rparr>"
    "(players topRowSession)[0 := \<lparr>name = ''X'', totalWins = 1\<rparr>] =
       [\<lparr>name = ''X'', totalWins = 1\<rparr>, \<lparr>name = ''O'', totalWins = 0\<rparr>]"
    by code_simp+
  from run_in_play_wins_for_its_mark [OF h(1) h(1) h(2,3,4)] r
  have "checkForWin topRowSession =
              Inr (''Player '' @ ''X'' @ '' wins!'',
                   topRowSession\<lparr>players := (players topRowSession)[mover topRowSession :=
                      (players topRowSession ! mover topRowSession)
                        \<lparr>totalWins := totalWins (players topRowSession ! mover topRowSession) + 1\<rparr>]\<rparr>)"
    by blast
  then have "checkForWin topRowSession =
     Inr (''Player X wins!'',
          topRowSession\<lparr>players := [\<lparr>name = ''X'', totalWins = 1\<rparr>,
                                     \<lparr>name = ''O'', totalWins = 0\<rparr>]\<rparr>)"
    by (simp add: f)
  with h r show ?thesis by blast
qed

text \<open>
  Claim C3.  On every state \<open>game'\<close> that \<^verbatim>\<open>checkForWin\<close> receives in play (as above:
  \<open>game\<close> waits at the prompt, a line is accepted and \<^verbatim>\<open>updateGame\<close> applies it), the
  player \<^verbatim>\<open>checkForWin\<close> credits has the index the turn had before \<^verbatim>\<open>updateGame\<close>
  flipped it, which is 1 minus the current turn index.  \<^verbatim>\<open>hasWinner\<close> searches the
  patterns of both players, but on these states the mark of the other player has no run,
  so the test on each of the four linearizations has exactly the value of the search
  for the mark of the player who just moved.  A win message is returned exactly when
  that mark has a run of \<open>K\<close>, it names that player, and no win is ever returned on
  account of a run of the other mark.
\<close>

theorem win_in_play_is_on_movers_run:
  assumes "1 \<le> N" "1 \<le> K"
    and "promptForInput (newSession gameType N K) lines = Inr ('''', game)"
    and "validateInput rawInput (gameboard game) = Inr (Some input, '''')"
    and "updateGame input game = Inr game'"
  shows "mover game' = turn game \<and> mover game' = 1 - turn game' \<and>
         players game' ! mover game' = players game ! turn game \<and>
         (\<forall>l. linearizationTest game' l =
               Inr (linearizationRun l (gameboard game') N
                      (name (players game' ! mover game')) K)) \<and>
         \<not> anyRun (gameboard game') N (name (players game' ! (1 - mover game'))) K \<and>
         ((\<exists>game''. checkForWin game' = Inr (winMessage (players game' ! mover game'), game''))
            \<longleftrightarrow> anyRun (gameboard game') N (name (players game' ! mover game')) K) \<and>
         (\<forall>msg game''. checkForWin game' = Inr (msg, game'') \<and> msg \<noteq> '''' \<and>
              msg \<noteq> tieMessage \<longrightarrow>
            msg = winMessage (players game' ! mover game') \<and>
            anyRun (gameboard game') N (name (players game' ! mover game')) K)"
proof -
  note st = play_state [OF assms]
  let ?gb = "gameboard game'"
  let ?mv = "name (players game' ! mover game')"
  let ?ot = "name (players game' ! (1 - mover game'))"
  have NK: "0 < N" "0 < winCase game'" using assms(1,2) st(4) by simp_all
  have pl: "players game' = players game"
    using assms(5) by (auto simp: updateGame_def split: Number.splits option.splits)
  have tests: "linearizationTest game' l = Inr (linearizationRun l ?gb N ?mv K)" for l
  proof -
    have "\<not> linearizationRun l ?gb N ?ot K"
      using st(11) linearizationRun_anyRun by blast
    then have "linearizationRun l ?gb N ''X'' K \<or> linearizationRun l ?gb N ''O'' K \<longleftrightarrow>
               linearizationRun l ?gb N ?mv K"
      using st(8,9,10) by auto
    then show ?thesis
      using linearizationTest_runs [OF st(1,3,2) NK(2,1), of l] by (simp add: st(4))
  qed
  have iff: "(\<exists>game''. checkForWin game' = Inr (winMessage (players game' ! mover game'), game''))
            \<longleftrightarrow> anyRun ?gb N ?mv K"
    using winMessage_neq [of "players game' ! mover game'"] by (auto simp: st(12))
  have only: "msg = winMessage (players game' ! mover game') \<and> anyRun ?gb N ?mv K"
    if "checkForWin game' = Inr (msg, game'') \<and> msg \<noteq> '''' \<and> msg \<noteq> tieMessage"
    for msg game''
    using that by (auto simp: st(12) split: if_splits)
  from st(7,6) pl tests st(11) iff only show ?thesis by (simp only: simp_thms) blast
qed

theorem win_in_play_is_on_movers_run_witness:
  "1 \<le> (3::nat) \<and>
   promptForInput (newSession ''tic-tac-toe'' 3 3)
     [codeUnits ''0,0'', codeUnits ''1,0'', codeUnits ''0,1'', codeUnits ''1,1'',
      codeUnits ''2,2''] = Inr ('''', fiveMovesSession) \<and>
   validateInput (codeUnits ''1,2'') (gameboard fiveMovesSession) =
     Inr (Some \<lparr>row = Finite 1, col = Finite 2\<rparr>, '''') \<and>
   updateGame \<lparr>row = Finite 1, col = Finite 2\<rparr> fiveMovesSession = Inr middleRowSession \<and>
   turn fiveMovesSession = 1 \<and> turn middleRowSession = 0 \<and> mover middleRowSession = 1 \<and>
   name (players middleRowSession ! 1) = ''O'' \<and>
   linearizationTest middleRowSession Rows = Inr True \<and>
   linearizationTest middleRowSession Columns = Inr False \<and>
   \<not> anyRun (gameboard middleRowSession) 3 ''X'' 3"
proof -
  have h: "1 \<le> (3::nat)"
    "promptForInput (newSession ''tic-tac-toe'' 3 3)
       [codeUnits ''0,0'', codeUnits ''1,0'', codeUnits ''0,1'', codeUnits ''1,1'',
        codeUnits ''2,2''] = Inr ('''', fiveMovesSession)"
    "validateInput (codeUnits ''1,2'') (gameboard fiveMovesSession) =
       Inr (Some \<lparr>row = Finite 1, col = Finite 2\<rparr>, '''')"
    "updateGame \<lparr>row = Finite 1, col = Finite 2\<rparr> fiveMovesSession = Inr middleRowSession"
    by code_simp+
  have f: "turn fiveMovesSession = 1" "turn middleRowSession = 0"
    "name (players middleRowSession ! 1) = ''O''" "1 - (1::nat) = 0"
    "name (players middleRowSession ! 0) = ''X''"
    "linearizationRun Rows (gameboard middleRowSession) 3 ''O'' 3 = True"
    "linearizationRun Columns (gameboard middleRowSession) 3 ''O'' 3 = False"
    by code_simp+
  note t = win_in_play_is_on_movers_run [OF h(1) h(1) h(2,3,4)]
  from t have m: "mover middleRowSession = 1" by (simp add: f(1))
  from t have "linearizationTest middleRowSession Rows =
      Inr (linearizationRun Rows (gameboard middleRowSession) 3
             (name (players middleRowSession ! mover middleRowSession)) 3)"
    "linearizationTest middleRowSession Columns =
      Inr (linearizationRun Columns (gameboard middleRowSession) 3
             (name (players middleRowSession ! mover middleRowSession)) 3)"
    by blast+
  then have l: "linearizationTest middleRowSession Rows = Inr True"
    "linearizationTest middleRowSession Columns = Inr False"
    by (simp_all only: m f)
  from t have "\<not> anyRun (gameboard middleRowSession) 3
      (name (players middleRowSession ! (1 - mover middleRowSession))) 3" by blast
  then have "\<not> anyRun (gameboard middleRowSession) 3 ''X'' 3"
    unfolding m f .
  with h f(1,2,3) m l show ?thesis by blast
qed

end
